theory Spec2Isabelle
  imports Complex_Main
begin

section \<open>Strings and the values of the host language\<close>

text \<open>
  The program is TypeScript. A string is modelled as a \<^typ>\<open>string\<close>, the list of the bytes
  of its UTF-8 encoding. Every pattern the program searches for (\<open>+\<close>, \<open>-\<close>, the line feed,
  the digits, the hunk header, the code fence) is ASCII, and an ASCII byte never occurs
  inside a multi-byte UTF-8 sequence, so searching the bytes agrees with searching the
  UTF-16 code units of the host string.
\<close>

definition startsWith :: "string \<Rightarrow> string \<Rightarrow> bool" where
  "startsWith s p = (take (length p) s = p)"

text \<open>\<open>s.split("\n")\<close>: the pieces between line feeds; the empty string gives one empty piece.\<close>

fun split_lines :: "string \<Rightarrow> string list" where
  "split_lines [] = [[]]"
| "split_lines (c # cs) =
     (if c = CHR 0x0A then [] # split_lines cs
      else (case split_lines cs of
              [] \<Rightarrow> [[c]]
            | l # ls \<Rightarrow> (c # l) # ls))"

text \<open>\<open>parts.join(sep)\<close> on strings.\<close>

fun join :: "string \<Rightarrow> string list \<Rightarrow> string" where
  "join sep [] = []"
| "join sep [x] = x"
| "join sep (x # y # ys) = x @ sep @ join sep (y # ys)"

section \<open>The hunk header pattern\<close>

text \<open>
  \<open>mapLineToDiff\<close> recognises a hunk header with
  \<^verbatim>\<open>line.match(/@@ -\d+(?:,\d+)? \+(\d+)(?:,\d+)? @@/)\<close>.
  The pattern is not anchored: the matcher tries every start position from the left and
  stops at the first where the pattern matches. At one start position the match is
  deterministic: a greedy \<^verbatim>\<open>\d+\<close> must take the whole run of digits, because what follows it
  in the pattern is a comma or a space, never a digit; and the optional group must be
  taken when a comma and a digit follow, because what follows the group is a space.
\<close>

definition isDigit :: "char \<Rightarrow> bool" where
  "isDigit c = (c \<in> set ''0123456789'')"

text \<open>A literal piece of the pattern: the rest of the input after it, or no match.\<close>

definition lit :: "string \<Rightarrow> string \<Rightarrow> string option" where
  "lit p s = (if startsWith s p then Some (drop (length p) s) else None)"

text \<open>\<^verbatim>\<open>\d+\<close>: the digits taken and the rest, or no match when no digit is there.\<close>

definition digits1 :: "string \<Rightarrow> (string \<times> string) option" where
  "digits1 s =
     (let ds = takeWhile isDigit s
      in if ds = [] then None else Some (ds, dropWhile isDigit s))"

text \<open>\<^verbatim>\<open>(?:,\d+)?\<close>: the rest of the input after the optional group.\<close>

definition optCommaDigits :: "string \<Rightarrow> string" where
  "optCommaDigits s =
     (case lit '','' s of
        None \<Rightarrow> s
      | Some r \<Rightarrow> (case digits1 r of None \<Rightarrow> s | Some (ds, r') \<Rightarrow> r'))"

text \<open>The whole pattern at the start of \<open>s\<close>; the result is capture group 1.\<close>

definition matchHunkAt :: "string \<Rightarrow> string option" where
  "matchHunkAt s =
     (case lit ''@@ -'' s of
        None \<Rightarrow> None
      | Some r1 \<Rightarrow>
         (case digits1 r1 of
            None \<Rightarrow> None
          | Some (oldStart, r2) \<Rightarrow>
             (case lit '' +'' (optCommaDigits r2) of
                None \<Rightarrow> None
              | Some r3 \<Rightarrow>
                 (case digits1 r3 of
                    None \<Rightarrow> None
                  | Some (newStart, r4) \<Rightarrow>
                     (case lit '' @@'' (optCommaDigits r4) of
                        None \<Rightarrow> None
                      | Some r5 \<Rightarrow> Some newStart)))))"

text \<open>\<open>line.match(...)\<close>: the first start position where the pattern matches.\<close>

fun hunkMatch :: "string \<Rightarrow> string option" where
  "hunkMatch [] = matchHunkAt []"
| "hunkMatch (c # cs) =
     (case matchHunkAt (c # cs) of
        Some d \<Rightarrow> Some d
      | None \<Rightarrow> hunkMatch cs)"

section \<open>The numbers of the host language\<close>

text \<open>
  A number of the host language is a double-precision float. The counter of
  \<open>mapLineToDiff\<close> takes only values that \<open>parseInt\<close> on a run of digits, \<open>x - 1\<close> and \<open>x + 1\<close>
  produce from one another: doubles whose value is an integer, and the two infinities
  (no operation here gives \<open>NaN\<close>). A finite double is modelled by its value.
\<close>

datatype jsnum = Finite int | PosInfinity | NegInfinity

text \<open>The number of binary digits of a positive integer.\<close>

function bitLength :: "int \<Rightarrow> nat" where
  "bitLength n = (if n \<le> 0 then 0 else Suc (bitLength (n div 2)))"
  by pat_completeness auto
termination
  by (relation "measure nat") auto

declare bitLength.simps [simp del]

text \<open>
  Rounding a magnitude to the nearest double, ties to the even significand, without
  regard to overflow. Every integer up to \<open>2^53\<close> is a double. Above, the 53 leading binary
  digits \<open>q\<close> are kept and the remainder \<open>r\<close> of the \<open>e\<close> digits cut off decides the direction.
\<close>

definition roundMagnitude :: "int \<Rightarrow> int" where
  "roundMagnitude n =
     (if n \<le> 2 ^ 53 then n
      else (let e = bitLength n - 53; q = n div 2 ^ e; r = n mod 2 ^ e; half = 2 ^ (e - 1)
            in if half < r \<or> (r = half \<and> odd q) then (q + 1) * 2 ^ e else q * 2 ^ e))"

text \<open>
  The number for an integer: the rounded value, or an infinity when the rounded magnitude
  reaches \<open>2^1024\<close>.
\<close>

definition toNumber :: "int \<Rightarrow> jsnum" where
  "toNumber n =
     (let m = roundMagnitude \<bar>n\<bar>
      in if 2 ^ 1024 \<le> m then (if n < 0 then NegInfinity else PosInfinity)
         else Finite (if n < 0 then - m else m))"

text \<open>\<open>x + 1\<close> (also \<open>x++\<close>) and \<open>x - 1\<close>: the exact result, rounded.\<close>

fun plusOne :: "jsnum \<Rightarrow> jsnum" where
  "plusOne (Finite c) = toNumber (c + 1)"
| "plusOne PosInfinity = PosInfinity"
| "plusOne NegInfinity = NegInfinity"

fun minusOne :: "jsnum \<Rightarrow> jsnum" where
  "minusOne (Finite c) = toNumber (c - 1)"
| "minusOne PosInfinity = PosInfinity"
| "minusOne NegInfinity = NegInfinity"

text \<open>
  \<open>x === t\<close> for a counter \<open>x\<close> and a decoded number \<open>t\<close>. A decoded number is modelled as a
  rational, so it is finite, and an infinite counter is equal to none. (The decoder of the
  host language gives an infinity for a numeral beyond the range of the doubles, such as
  \<open>1e999\<close>; a line of that value is outside the model.)
\<close>

fun strictEq :: "jsnum \<Rightarrow> rat \<Rightarrow> bool" where
  "strictEq (Finite c) t = (of_int c = t)"
| "strictEq x t = False"

text \<open>The integer that a run of decimal digits denotes.\<close>

definition digitVal :: "char \<Rightarrow> nat" where
  "digitVal c = of_char c - 48"

definition decimalValue :: "string \<Rightarrow> int" where
  "decimalValue ds = foldl (\<lambda>n c. 10 * n + int (digitVal c)) 0 ds"

text \<open>
  \<open>parseInt(digits, 10)\<close> on a non-empty run of decimal digits: the number for the
  integer the digits denote. (The language standard lets an implementation read the
  digits after the 20th significant one as zeros; the engines of Node round the exact
  value, and so does the model. Nothing proved below depends on the choice.)
\<close>

definition parseInt10 :: "string \<Rightarrow> jsnum" where
  "parseInt10 ds = toNumber (decimalValue ds)"

section \<open>Mapping a line of the new file to a line of the patch\<close>

text \<open>
  \<open>ReviewOrchestrator.mapLineToDiff(targetLine, patchLines)\<close>. The loop over the index \<open>i\<close>
  carries \<open>currentLine\<close> and \<open>inHunk\<close>; the function starts it at \<open>i = 0\<close>,
  \<open>currentLine = 0\<close>, \<open>inHunk = false\<close>. \<open>targetLine\<close> is a decoded number, modelled as a
  rational. The result \<open>None\<close> is the source's \<open>null\<close>.
\<close>

fun mapLoop :: "rat \<Rightarrow> string list \<Rightarrow> nat \<Rightarrow> jsnum \<Rightarrow> bool \<Rightarrow> nat option" where
  "mapLoop targetLine [] i currentLine inHunk = None"
| "mapLoop targetLine (line # rest) i currentLine inHunk =
     (case hunkMatch line of
        Some newStart \<Rightarrow> mapLoop targetLine rest (i + 1) (minusOne (parseInt10 newStart)) True
      | None \<Rightarrow>
         if \<not> inHunk then mapLoop targetLine rest (i + 1) currentLine inHunk
         else if startsWith line ''+'' then
           (if strictEq (plusOne currentLine) targetLine then Some (i + 1)
            else mapLoop targetLine rest (i + 1) (plusOne currentLine) inHunk)
         else if \<not> startsWith line ''-'' then
           mapLoop targetLine rest (i + 1) (plusOne currentLine) inHunk
         else mapLoop targetLine rest (i + 1) currentLine inHunk)"

definition mapLineToDiff :: "rat \<Rightarrow> string list \<Rightarrow> nat option" where
  "mapLineToDiff targetLine patchLines = mapLoop targetLine patchLines 0 (Finite 0) False"

section \<open>Decoded values and the operations the program applies to them\<close>

text \<open>
  \<open>JSON.parse\<close> returns a value of the host language without any schema. The program
  reads fields of that value as it goes, so the model keeps the value as it is: the
  \<open>ReviewIssue\<close> objects that flow through the pipeline are the decoded objects themselves.
  Decoded numbers are rationals: every finite double is one, and the rounding of a
  numeral to a double belongs to the decoder, which is a parameter of the model. An object
  is the list of its members, at most one per key, read with \<^const>\<open>map_of\<close>.
\<close>

datatype json =
    JNull
  | JBool bool
  | JNum rat
  | JStr string
  | JArr "json list"
  | JObj "(string \<times> json) list"

type_synonym ReviewIssue = json

text \<open>What the program can throw or be thrown at: exceptions are values.\<close>

datatype js_error = TypeError | SyntaxError | ServiceError string

text \<open>
  \<open>v.k\<close> for one of the property names this program reads (\<open>reviews\<close>, \<open>summary\<close>,
  \<open>line\<close>, \<open>message\<close>, \<open>severity\<close>, \<open>category\<close>): reading a property of \<open>null\<close> throws, an
  object gives its member or \<open>undefined\<close> (\<open>None\<close>), and no other decoded value has a
  property of these names.
\<close>

fun getProp :: "json \<Rightarrow> string \<Rightarrow> js_error + json option" where
  "getProp JNull k = Inl TypeError"
| "getProp (JObj members) k = Inr (map_of members k)"
| "getProp v k = Inr None"

text \<open>The truth value of \<open>v\<close> in a condition, \<open>!v\<close>, \<open>v || d\<close> and \<open>filter(Boolean)\<close>.\<close>

fun truthy :: "json option \<Rightarrow> bool" where
  "truthy None = False"
| "truthy (Some JNull) = False"
| "truthy (Some (JBool b)) = b"
| "truthy (Some (JNum q)) = (q \<noteq> 0)"
| "truthy (Some (JStr s)) = (s \<noteq> [])"
| "truthy (Some (JArr xs)) = True"
| "truthy (Some (JObj members)) = True"

text \<open>\<open>v || d\<close>.\<close>

definition orElse :: "json option \<Rightarrow> json \<Rightarrow> json" where
  "orElse v d = (case v of None \<Rightarrow> d | Some x \<Rightarrow> if truthy (Some x) then x else d)"

text \<open>\<open>typeof v === 'number'\<close>.\<close>

fun isNumber :: "json option \<Rightarrow> bool" where
  "isNumber (Some (JNum q)) = True"
| "isNumber v = False"

text \<open>
  Three functions of the host language are parameters of the model: the JSON decoder,
  \<open>String.prototype.toUpperCase\<close> (which depends on the Unicode tables) and the conversion
  to a string of a value that is not a string (which formats doubles, and on an object
  calls whatever its \<open>toString\<close> member is). Every theorem holds for all of them.
\<close>

record js_runtime =
  JSON_parse :: "string \<Rightarrow> js_error + json"
  toUpperCase :: "string \<Rightarrow> string"
  ToString :: "json \<Rightarrow> js_error + string"

text \<open>A value inside a template literal or \<open>join\<close>.\<close>

definition toStr :: "js_runtime \<Rightarrow> json \<Rightarrow> js_error + string" where
  "toStr rt v = (case v of JStr s \<Rightarrow> Inr s | _ \<Rightarrow> ToString rt v)"

text \<open>A non-negative integer inside a template literal: its decimal digits.\<close>

function showNat :: "nat \<Rightarrow> string" where
  "showNat n =
     (if n < 10 then [''0123456789'' ! n]
      else showNat (n div 10) @ [''0123456789'' ! (n mod 10)])"
  by pat_completeness auto
termination
  by (relation "measure id") auto

declare showNat.simps [simp del]

text \<open>\<open>xs.filter(p)\<close> with a callback that may throw, and \<open>xs.map(f)\<close> likewise.\<close>

fun filterE :: "('a \<Rightarrow> js_error + bool) \<Rightarrow> 'a list \<Rightarrow> js_error + 'a list" where
  "filterE p [] = Inr []"
| "filterE p (x # xs) =
     (case p x of
        Inl e \<Rightarrow> Inl e
      | Inr keep \<Rightarrow>
         (case filterE p xs of
            Inl e \<Rightarrow> Inl e
          | Inr ys \<Rightarrow> Inr (if keep then x # ys else ys)))"

fun mapE :: "('a \<Rightarrow> js_error + 'b) \<Rightarrow> 'a list \<Rightarrow> js_error + 'b list" where
  "mapE f [] = Inr []"
| "mapE f (x # xs) =
     (case f x of
        Inl e \<Rightarrow> Inl e
      | Inr y \<Rightarrow> (case mapE f xs of Inl e \<Rightarrow> Inl e | Inr ys \<Rightarrow> Inr (y # ys)))"

section \<open>Cleaning the response of the engine\<close>

text \<open>
  \<^verbatim>\<open>response.replace(/```json\n?|\n?```/g, '')\<close>. One match at the start of the input:
  the first alternative is the opening fence and an optional line feed, the second an
  optional line feed and a fence. The rest of the input after the match is returned.
\<close>

definition matchFence :: "string \<Rightarrow> string option" where
  "matchFence s =
     (case lit ''```json'' s of
        Some r \<Rightarrow> (case lit [CHR 0x0A] r of Some r' \<Rightarrow> Some r' | None \<Rightarrow> Some r)
      | None \<Rightarrow>
         (case lit (CHR 0x0A # ''```'') s of
            Some r \<Rightarrow> Some r
          | None \<Rightarrow> lit ''```'' s))"

text \<open>The global replacement: every match from the left is removed.\<close>

function stripFences :: "string \<Rightarrow> string" where
  "stripFences [] = []"
| "stripFences (c # cs) =
     (case matchFence (c # cs) of
        Some rest \<Rightarrow> stripFences rest
      | None \<Rightarrow> c # stripFences cs)"
  by pat_completeness auto
termination
proof (relation "measure length")
  show "wf (measure length)" by simp
next
  fix c :: char and cs rest :: string
  assume "matchFence (c # cs) = Some rest"
  then have "length rest < length (c # cs)"
    by (auto simp: matchFence_def lit_def startsWith_def split: option.splits if_splits)
  then show "(rest, c # cs) \<in> measure length" by simp
next
  fix c :: char and cs :: string
  show "(cs, c # cs) \<in> measure length" by simp
qed

text \<open>
  \<open>s.trim()\<close> removes the white space and line terminators of the language from both ends.
  They are listed by their UTF-8 encodings: U+0009 to U+000D, U+0020, U+00A0, U+1680,
  U+2000 to U+200A, U+2028, U+2029, U+202F, U+205F, U+3000 and U+FEFF.
\<close>

definition whiteSpace :: "string list" where
  "whiteSpace =
     [[CHR 0x09], [CHR 0x0A], [CHR 0x0B], [CHR 0x0C], [CHR 0x0D], [CHR 0x20],
      [CHR 0xC2, CHR 0xA0], [CHR 0xE1, CHR 0x9A, CHR 0x80],
      [CHR 0xE2, CHR 0x80, CHR 0x80], [CHR 0xE2, CHR 0x80, CHR 0x81],
      [CHR 0xE2, CHR 0x80, CHR 0x82], [CHR 0xE2, CHR 0x80, CHR 0x83],
      [CHR 0xE2, CHR 0x80, CHR 0x84], [CHR 0xE2, CHR 0x80, CHR 0x85],
      [CHR 0xE2, CHR 0x80, CHR 0x86], [CHR 0xE2, CHR 0x80, CHR 0x87],
      [CHR 0xE2, CHR 0x80, CHR 0x88], [CHR 0xE2, CHR 0x80, CHR 0x89],
      [CHR 0xE2, CHR 0x80, CHR 0x8A], [CHR 0xE2, CHR 0x80, CHR 0xA8],
      [CHR 0xE2, CHR 0x80, CHR 0xA9], [CHR 0xE2, CHR 0x80, CHR 0xAF],
      [CHR 0xE2, CHR 0x81, CHR 0x9F], [CHR 0xE3, CHR 0x80, CHR 0x80],
      [CHR 0xEF, CHR 0xBB, CHR 0xBF]]"

text \<open>Removing from the front every leading piece that is in the list \<open>ws\<close>.\<close>

function dropLeading :: "string list \<Rightarrow> string \<Rightarrow> string" where
  "dropLeading ws [] = []"
| "dropLeading ws (c # cs) =
     (case List.find (\<lambda>w. w \<noteq> [] \<and> startsWith (c # cs) w) ws of
        Some w \<Rightarrow> dropLeading ws (drop (length w) (c # cs))
      | None \<Rightarrow> c # cs)"
  by pat_completeness auto
termination
proof (relation "measure (\<lambda>(ws, s). length s)")
  show "wf (measure (\<lambda>(ws, s). length s))" by simp
next
  fix ws :: "string list" and c :: char and cs w :: string
  assume "List.find (\<lambda>w. w \<noteq> [] \<and> startsWith (c # cs) w) ws = Some w"
  then have "w \<noteq> []" by (auto simp: find_Some_iff)
  then show "((ws, drop (length w) (c # cs)), (ws, c # cs)) \<in> measure (\<lambda>(ws, s). length s)"
    by (cases w) simp_all
qed

definition trim :: "string \<Rightarrow> string" where
  "trim s = rev (dropLeading (map rev whiteSpace) (rev (dropLeading whiteSpace s)))"

section \<open>The client of the generative engine\<close>

record ReviewResult =
  reviews :: "ReviewIssue list"
  summary :: json

text \<open>
  The callback of \<open>parsed.reviews.filter(...)\<close> in \<open>parseReviewResponse\<close>: a candidate is
  kept when \<open>typeof review.line\<close> is \<open>'number'\<close> and \<open>review.message\<close> is truthy.
\<close>

definition validReview :: "json \<Rightarrow> js_error + bool" where
  "validReview review =
     (case getProp review ''line'' of
        Inl e \<Rightarrow> Inl e
      | Inr l \<Rightarrow>
         if \<not> isNumber l then Inr False
         else (case getProp review ''message'' of
                 Inl e \<Rightarrow> Inl e
               | Inr m \<Rightarrow> if \<not> truthy m then Inr False else Inr True))"

text \<open>The body of the \<open>try\<close> block of \<open>LLMClient.parseReviewResponse\<close>.\<close>

definition parseReviewResponse_try :: "js_runtime \<Rightarrow> string \<Rightarrow> string \<Rightarrow> js_error + ReviewResult" where
  "parseReviewResponse_try rt response filePath =
     (let cleaned = trim (stripFences response) in
      case JSON_parse rt cleaned of
        Inl e \<Rightarrow> Inl e
      | Inr parsed \<Rightarrow>
         (case getProp parsed ''reviews'' of
            Inl e \<Rightarrow> Inl e
          | Inr (Some (JArr candidates)) \<Rightarrow>
             (case filterE validReview candidates of
                Inl e \<Rightarrow> Inl e
              | Inr validReviews \<Rightarrow>
                 (case getProp parsed ''summary'' of
                    Inl e \<Rightarrow> Inl e
                  | Inr s \<Rightarrow>
                     Inr \<lparr>reviews = validReviews,
                          summary = orElse s (JStr (''Reviewed '' @ filePath))\<rparr>))
          | Inr other \<Rightarrow>
             (case getProp parsed ''summary'' of
                Inl e \<Rightarrow> Inl e
              | Inr s \<Rightarrow> Inr \<lparr>reviews = [], summary = orElse s (JStr ''Review completed'')\<rparr>)))"

text \<open>
  \<open>LLMClient.parseReviewResponse\<close>: the \<open>catch\<close> clause turns every exception of the body
  into the fallback result. The result type keeps a place for an exception that would
  leave the function.
\<close>

definition parseReviewResponse :: "js_runtime \<Rightarrow> string \<Rightarrow> string \<Rightarrow> js_error + ReviewResult" where
  "parseReviewResponse rt response filePath =
     (case parseReviewResponse_try rt response filePath of
        Inr result \<Rightarrow> Inr result
      | Inl error \<Rightarrow> Inr \<lparr>reviews = [], summary = JStr ''Failed to parse review response''\<rparr>)"

text \<open>\<open>s.padStart(n, ' ')\<close>.\<close>

definition padStart :: "nat \<Rightarrow> string \<Rightarrow> string" where
  "padStart n s = replicate (n - length s) CHR '' '' @ s"

text \<open>An optional string in a condition: \<open>undefined\<close> and the empty string are falsy.\<close>

fun present :: "string option \<Rightarrow> bool" where
  "present None = False"
| "present (Some s) = (s \<noteq> [])"

text \<open>\<open>LLMClient.buildReviewPrompt\<close>.\<close>

definition buildReviewPrompt :: "string \<Rightarrow> string \<Rightarrow> string option \<Rightarrow> string option \<Rightarrow> string" where
  "buildReviewPrompt filePath diff prTitle prDescription =
     (let numberedDiff =
            join [CHR 0x0A]
              (map (\<lambda>(index, line). padStart 4 (showNat (index + 1)) @ '': '' @ line)
                 (enumerate 0 (split_lines diff)));
          context =
            join [CHR 0x0A]
              (filter (\<lambda>s. s \<noteq> [])
                 [''File: '' @ filePath,
                  (if present prTitle then ''PR Title: '' @ the prTitle else []),
                  (if present prDescription then ''PR Description: '' @ the prDescription else [])])
      in context @
         ''\<newline>\<newline>Code Changes (diff with line numbers):\<newline>'' @
         numberedDiff @
         ''\<newline>\<newline>IMPORTANT: The line numbers shown above are for reference only. When providing feedback:\<newline>'' @
         ''- The \"line\" field should be the actual line number in the new file (counting added lines only)\<newline>'' @
         ''- If you suggest a fix, the suggestion MUST replace the exact line you'' @ [CHR 0x27] @ ''re commenting on\<newline>'' @
         ''- Example: If commenting on line 18 (timeout-minutes: 10), the suggestion should be a replacement for that specific line\<newline>'' @
         ''\<newline>Please review the code changes above and provide feedback in the specified JSON format.'')"

text \<open>
  The two services and the engine are outside the program. A run sees them as the
  outcome of each call it makes: the value returned, or the exception thrown (\<open>Inl\<close>).
  For the engine the outcome is that of \<open>withRetry(() => client.chat.completions.create(...))\<close>
  followed by reading \<open>response.choices[0]?.message?.content\<close>, given the system prompt and
  the user prompt; \<open>None\<close> is a missing content. The outcome of a call is a function of
  its arguments: a run calls each method of the hosting service at most once, and the
  engine once per file and once for the summary.
\<close>

record PRDetails =
  title :: string
  body :: "string option"

record PullRequestFile =
  filename :: string
  status :: string
  patch :: "string option"

record ReviewComment =
  path :: string
  line :: nat
  body :: string
  side :: string

record services =
  getPRDetails :: "js_error + PRDetails"
  getChangedFiles :: "string list \<Rightarrow> js_error + PullRequestFile list"
  createReview :: "ReviewComment list \<Rightarrow> string \<Rightarrow> string \<Rightarrow> js_error + unit"
  postReviewComments :: "ReviewComment list \<Rightarrow> js_error + unit"
  postGeneralComment :: "string \<Rightarrow> js_error + unit"
  reviewCompletion :: "string \<Rightarrow> string \<Rightarrow> js_error + string option"
  summaryCompletion :: "string \<Rightarrow> string \<Rightarrow> js_error + string option"

text \<open>
  \<open>LLMClient.reviewCode\<close>: an exception of the request is logged by \<open>handleError\<close> and thrown
  again; an empty or missing content gives the fixed result; any other content is parsed.
\<close>

definition reviewCode ::
  "js_runtime \<Rightarrow> services \<Rightarrow> string \<Rightarrow> string \<Rightarrow> string \<Rightarrow> string option \<Rightarrow> string option \<Rightarrow>
   js_error + ReviewResult" where
  "reviewCode rt env filePath diff systemPrompt prTitle prDescription =
     (let userPrompt = buildReviewPrompt filePath diff prTitle prDescription in
      case reviewCompletion env systemPrompt userPrompt of
        Inl error \<Rightarrow> Inl error
      | Inr content \<Rightarrow>
         if \<not> present content then Inr \<lparr>reviews = [], summary = JStr ''No review generated''\<rparr>
         else parseReviewResponse rt (the content) filePath)"

text \<open>
  \<open>LLMClient.generateSummary\<close>. The prompt is built before the \<open>try\<close> block, so a failing
  string conversion of a per-file summary leaves the function; a failing request is
  caught and gives the templated summary.
\<close>

definition generateSummary ::
  "js_runtime \<Rightarrow> services \<Rightarrow> (string \<times> json \<times> nat) list \<Rightarrow> string \<Rightarrow> js_error + string" where
  "generateSummary rt env fileReviews systemPrompt =
     (case mapE (\<lambda>(filePath, summary, issueCount).
                   case toStr rt summary of
                     Inl e \<Rightarrow> Inl e
                   | Inr s \<Rightarrow> Inr (''- '' @ filePath @ '': '' @ showNat issueCount @ '' issue(s) - '' @ s))
             fileReviews of
        Inl e \<Rightarrow> Inl e
      | Inr items \<Rightarrow>
         (let summaryPrompt =
                ''Please provide a concise overall summary of the following code review results:\<newline>\<newline>'' @
                join [CHR 0x0A] items @
                ''\<newline>\<newline>Provide a brief overall assessment (2-3 sentences) of the PR quality and any major concerns.''
          in case summaryCompletion env systemPrompt summaryPrompt of
               Inl error \<Rightarrow> Inr (''Reviewed '' @ showNat (length fileReviews) @ '' file(s)'')
             | Inr content \<Rightarrow> Inr (if present content then the content else ''Review completed'')))"

section \<open>The orchestrator\<close>

record Config =
  llmBaseUrl :: string
  llmModel :: string
  llmApiKey :: string
  prompt :: string
  githubToken :: string
  reviewMode :: string
  maxFiles :: int
  excludePatterns :: "string list"
  failOnError :: bool
  postAsReview :: bool

text \<open>
  \<open>maxFiles\<close> comes from \<open>parseInt\<close>: an integer, or \<open>NaN\<close>, which fails the test
  \<open>maxFiles > 0\<close> as every integer that is not positive does.

  The string literals of the source that hold pictographs are given by their bytes in
  the source file.
\<close>

definition marker_critical :: string where
  "marker_critical = [CHR 0xC3, CHR 0xB0, CHR 0xC5, CHR 0xB8, CHR 0xE2, CHR 0x80, CHR 0x9D, CHR 0xC2, CHR 0xB4]"

definition marker_warning :: string where
  "marker_warning = [CHR 0xC3, CHR 0xB0, CHR 0xC5, CHR 0xB8, CHR 0xC5, CHR 0xB8, CHR 0xC2, CHR 0xA1]"

definition marker_suggestion :: string where
  "marker_suggestion = [CHR 0xC3, CHR 0xB0, CHR 0xC5, CHR 0xB8, CHR 0xE2, CHR 0x80, CHR 0x99, CHR 0xC2, CHR 0xA1]"

definition marker_info :: string where
  "marker_info = [CHR 0xC3, CHR 0xA2, CHR 0xE2, CHR 0x80, CHR 0x9E, CHR 0xC2, CHR 0xB9, CHR 0xC3, CHR 0xAF, CHR 0xC2, CHR 0xB8]"

definition marker_default :: string where
  "marker_default = [CHR 0xC3, CHR 0xB0, CHR 0xC5, CHR 0xB8, CHR 0xE2, CHR 0x80, CHR 0x9C]"

definition marker_check :: string where
  "marker_check = [CHR 0xC3, CHR 0xA2, CHR 0xC5, CHR 0x93, CHR 0xE2, CHR 0x80, CHR 0xA6]"

definition marker_party :: string where
  "marker_party = [CHR 0xC3, CHR 0xB0, CHR 0xC5, CHR 0xB8, CHR 0xC5, CHR 0xBD, CHR 0xE2, CHR 0x80, CHR 0xB0]"

text \<open>
  \<open>ReviewOrchestrator.getSeverityEmoji\<close>: the \<open>switch\<close> compares with \<open>===\<close>, so only a
  string equal to a label selects its case, and everything else (also \<open>undefined\<close>)
  takes the default.
\<close>

definition getSeverityEmoji :: "json option \<Rightarrow> string" where
  "getSeverityEmoji severity =
     (if severity = Some (JStr ''critical'') then marker_critical
      else if severity = Some (JStr ''warning'') then marker_warning
      else if severity = Some (JStr ''suggestion'') then marker_suggestion
      else if severity = Some (JStr ''info'') then marker_info
      else marker_default)"

text \<open>
  \<open>issue.category ? `**${issue.category.toUpperCase()}**` : ""\<close>: a truthy category that
  is not a string has no method \<open>toUpperCase\<close>, and the call throws.
\<close>

definition categoryLabel :: "js_runtime \<Rightarrow> json option \<Rightarrow> js_error + string" where
  "categoryLabel rt category =
     (if truthy category then
        (case category of
           Some (JStr s) \<Rightarrow> Inr (''**'' @ toUpperCase rt s @ ''**'')
         | _ \<Rightarrow> Inl TypeError)
      else Inr [])"

text \<open>\<open>[...].filter(Boolean).join("\n")\<close> on values.\<close>

definition joinTruthy :: "js_runtime \<Rightarrow> json option list \<Rightarrow> js_error + string" where
  "joinTruthy rt parts =
     (case mapE (\<lambda>v. toStr rt (the v)) (filter truthy parts) of
        Inl e \<Rightarrow> Inl e
      | Inr strs \<Rightarrow> Inr (join [CHR 0x0A] strs))"

text \<open>The body of one comment, as \<open>createReviewComments\<close> builds it from the issue.\<close>

definition commentBody :: "js_runtime \<Rightarrow> ReviewIssue \<Rightarrow> js_error + string" where
  "commentBody rt issue =
     (case getProp issue ''severity'' of
        Inl e \<Rightarrow> Inl e
      | Inr severity \<Rightarrow>
         (let severityEmoji = getSeverityEmoji severity in
          case getProp issue ''category'' of
            Inl e \<Rightarrow> Inl e
          | Inr category \<Rightarrow>
             (case categoryLabel rt category of
                Inl e \<Rightarrow> Inl e
              | Inr label \<Rightarrow>
                 (case getProp issue ''message'' of
                    Inl e \<Rightarrow> Inl e
                  | Inr message \<Rightarrow>
                     joinTruthy rt
                       [Some (JStr (severityEmoji @ '' '' @ label)), Some (JStr []), message]))))"

text \<open>
  \<open>this.mapLineToDiff(issue.line, patchLines)\<close> on the decoded value of \<open>issue.line\<close>: a
  value that is not a number is strictly equal to no value of the counter, so the scan
  ends with \<open>null\<close>.
\<close>

definition mapIssueLine :: "json option \<Rightarrow> string list \<Rightarrow> nat option" where
  "mapIssueLine v patchLines =
     (case v of
        Some (JNum targetLine) \<Rightarrow> mapLineToDiff targetLine patchLines
      | _ \<Rightarrow> None)"

text \<open>The loop of \<open>createReviewComments\<close> over the issues; \<open>comments\<close> is the list it grows.\<close>

fun commentLoop ::
  "js_runtime \<Rightarrow> string \<Rightarrow> string list \<Rightarrow> ReviewIssue list \<Rightarrow> ReviewComment list \<Rightarrow>
   js_error + ReviewComment list" where
  "commentLoop rt filePath patchLines [] comments = Inr comments"
| "commentLoop rt filePath patchLines (issue # rest) comments =
     (case getProp issue ''line'' of
        Inl e \<Rightarrow> Inl e
      | Inr issueLine \<Rightarrow>
         (case mapIssueLine issueLine patchLines of
            None \<Rightarrow> commentLoop rt filePath patchLines rest comments
          | Some lineNumber \<Rightarrow>
             (case commentBody rt issue of
                Inl e \<Rightarrow> Inl e
              | Inr text \<Rightarrow>
                 commentLoop rt filePath patchLines rest
                   (comments @ [\<lparr>path = filePath, line = lineNumber, body = text, side = ''RIGHT''\<rparr>]))))"

definition createReviewComments ::
  "js_runtime \<Rightarrow> string \<Rightarrow> ReviewIssue list \<Rightarrow> string \<Rightarrow> js_error + ReviewComment list" where
  "createReviewComments rt filePath issues patchText =
     commentLoop rt filePath (split_lines patchText) issues []"

text \<open>\<open>reviews.filter((r) => p(r.severity)).length\<close>, for the three tallies of \<open>reviewFile\<close>.\<close>

definition countSeverity :: "(json option \<Rightarrow> bool) \<Rightarrow> ReviewIssue list \<Rightarrow> js_error + nat" where
  "countSeverity p rs =
     (case filterE (\<lambda>r. case getProp r ''severity'' of
                           Inl e \<Rightarrow> Inl e
                         | Inr v \<Rightarrow> Inr (p v)) rs of
        Inl e \<Rightarrow> Inl e
      | Inr kept \<Rightarrow> Inr (length kept))"

text \<open>
  The calls a run makes to its collaborators, in order: the methods of the client of the
  hosting service and the two methods of the client of the engine.
\<close>

datatype call =
    Call_getPRDetails
  | Call_getChangedFiles "string list"
  | Call_reviewCode string string string "string option" "string option"
  | Call_generateSummary "(string \<times> json \<times> nat) list" string
  | Call_createReview "ReviewComment list" string string
  | Call_postReviewComments "ReviewComment list"
  | Call_postGeneralComment string

record FileReview =
  comments :: "ReviewComment list"
  summary :: json
  criticalCount :: nat
  warningCount :: nat
  suggestionCount :: nat

record FileResult =
  filePath :: string
  summary :: json
  issueCount :: nat
  criticalCount :: nat
  warningCount :: nat
  suggestionCount :: nat

record ReviewSummary =
  totalFiles :: nat
  filesReviewed :: nat
  totalComments :: nat
  criticalIssues :: nat
  warnings :: nat
  suggestions :: nat
  summary :: string

text \<open>\<open>file.patch || ""\<close> and \<open>prDetails.body || undefined\<close>.\<close>

definition patchOrEmpty :: "PullRequestFile \<Rightarrow> string" where
  "patchOrEmpty file = (if present (patch file) then the (patch file) else [])"

definition orUndefined :: "string option \<Rightarrow> string option" where
  "orUndefined v = (if present v then v else None)"

text \<open>
  \<open>ReviewOrchestrator.reviewFile\<close>, with the call it makes. \<open>logger.group\<close> runs its
  callback and returns its result.
\<close>

definition reviewFile ::
  "js_runtime \<Rightarrow> services \<Rightarrow> Config \<Rightarrow> PullRequestFile \<Rightarrow> string option \<Rightarrow> string option \<Rightarrow>
   call list \<times> (js_error + FileReview)" where
  "reviewFile rt env config file prTitle prDescription =
     ([Call_reviewCode (filename file) (patchOrEmpty file) (prompt config) prTitle prDescription],
      case reviewCode rt env (filename file) (patchOrEmpty file) (prompt config) prTitle prDescription of
        Inl e \<Rightarrow> Inl e
      | Inr result \<Rightarrow>
         (case createReviewComments rt (filename file) (reviews result) (patchOrEmpty file) of
            Inl e \<Rightarrow> Inl e
          | Inr cs \<Rightarrow>
             (case countSeverity (\<lambda>v. v = Some (JStr ''critical'')) (reviews result) of
                Inl e \<Rightarrow> Inl e
              | Inr nCritical \<Rightarrow>
                 (case countSeverity (\<lambda>v. v = Some (JStr ''warning'')) (reviews result) of
                    Inl e \<Rightarrow> Inl e
                  | Inr nWarning \<Rightarrow>
                     (case countSeverity
                             (\<lambda>v. v = Some (JStr ''suggestion'') \<or> v = Some (JStr ''info''))
                             (reviews result) of
                        Inl e \<Rightarrow> Inl e
                      | Inr nSuggestion \<Rightarrow>
                         Inr \<lparr>comments = cs, summary = ReviewResult.summary result,
                              criticalCount = nCritical, warningCount = nWarning,
                              suggestionCount = nSuggestion\<rparr>)))))"

text \<open>
  The loop of \<open>runReview\<close> over \<open>filesToReview\<close>. Its state is the calls made so far,
  \<open>allComments\<close> and \<open>fileResults\<close>. The \<open>catch\<close> clause of the loop body logs the exception
  of \<open>reviewFile\<close> and goes on.
\<close>

fun reviewLoop ::
  "js_runtime \<Rightarrow> services \<Rightarrow> Config \<Rightarrow> PRDetails \<Rightarrow> PullRequestFile list \<Rightarrow>
   call list \<times> ReviewComment list \<times> FileResult list \<Rightarrow>
   call list \<times> ReviewComment list \<times> FileResult list" where
  "reviewLoop rt env config prDetails [] state = state"
| "reviewLoop rt env config prDetails (file # rest) (calls, allComments, fileResults) =
     (if status file = ''removed'' \<or> \<not> present (patch file) then
        reviewLoop rt env config prDetails rest (calls, allComments, fileResults)
      else
        (case reviewFile rt env config file (Some (title prDetails))
                (orUndefined (PRDetails.body prDetails)) of
           (made, Inl error) \<Rightarrow>
             reviewLoop rt env config prDetails rest (calls @ made, allComments, fileResults)
         | (made, Inr result) \<Rightarrow>
             reviewLoop rt env config prDetails rest
               (calls @ made,
                allComments @ comments result,
                fileResults @
                  [\<lparr>filePath = filename file, summary = FileReview.summary result,
                    issueCount = length (comments result),
                    criticalCount = FileReview.criticalCount result,
                    warningCount = FileReview.warningCount result,
                    suggestionCount = FileReview.suggestionCount result\<rparr>])))"

text \<open>\<open>ReviewOrchestrator.formatReviewBody\<close>.\<close>

definition formatReviewBody :: "string \<Rightarrow> FileResult list \<Rightarrow> nat \<Rightarrow> nat \<Rightarrow> nat \<Rightarrow> string" where
  "formatReviewBody overall fileResults nCritical nWarnings nSuggestions =
     (let stats =
            filter (\<lambda>s. s \<noteq> [])
              [(if nCritical > 0 then marker_critical @ '' '' @ showNat nCritical @ '' critical'' else []),
               (if nWarnings > 0 then marker_warning @ '' '' @ showNat nWarnings @ '' warnings'' else []),
               (if nSuggestions > 0 then marker_suggestion @ '' '' @ showNat nSuggestions @ '' suggestions''
                else [])]
      in ''## Open Review\<newline>\<newline>'' @ overall @ ''\<newline>\<newline>### Summary\<newline>'' @
         (if length stats > 0 then join '' | '' stats else marker_check @ '' No issues found'') @
         ''\<newline>\<newline>### Files Reviewed\<newline>'' @
         join [CHR 0x0A]
           (map (\<lambda>r. ''- '' @ filePath r @
                      (if issueCount r > 0
                       then '' ('' @ showNat (issueCount r) @ '' comment'' @
                            (if issueCount r > 1 then ''s'' else []) @ '')''
                       else []))
              fileResults) @
         ''\<newline>\<newline>---\<newline>*This review was generated by AI. Please review the suggestions carefully before applying them.*'')"

text \<open>The posting branch of \<open>runReview\<close>, with the calls it makes.\<close>

definition postReview ::
  "services \<Rightarrow> Config \<Rightarrow> ReviewComment list \<Rightarrow> FileResult list \<Rightarrow> string \<Rightarrow> nat \<Rightarrow> nat \<Rightarrow> nat \<Rightarrow>
   call list \<times> (js_error + unit)" where
  "postReview env config allComments fileResults overallSummary nCritical nWarnings nSuggestions =
     (if length allComments > 0 then
        (let reviewBody =
               formatReviewBody overallSummary fileResults nCritical nWarnings nSuggestions
         in if postAsReview config then
              ([Call_createReview allComments reviewBody ''COMMENT''],
               createReview env allComments reviewBody ''COMMENT'')
            else
              (case postReviewComments env allComments of
                 Inl e \<Rightarrow> ([Call_postReviewComments allComments], Inl e)
               | Inr u \<Rightarrow>
                  ([Call_postReviewComments allComments, Call_postGeneralComment reviewBody],
                   postGeneralComment env reviewBody)))
      else
        (let approvalBody =
               ''## '' @ marker_check @ '' AI Code Review Complete\<newline>\<newline>'' @ overallSummary @
               ''\<newline>\<newline>**No issues found!** Great job! '' @ marker_party
         in if postAsReview config then
              ([Call_createReview [] approvalBody ''APPROVE''],
               createReview env [] approvalBody ''APPROVE'')
            else ([Call_postGeneralComment approvalBody], postGeneralComment env approvalBody)))"

text \<open>
  \<open>ReviewOrchestrator.runReview\<close>: the calls made, and the report or the exception that
  ends the run. The timing and the log lines are left out.
\<close>

definition runReview :: "js_runtime \<Rightarrow> services \<Rightarrow> Config \<Rightarrow> call list \<times> (js_error + ReviewSummary)" where
  "runReview rt env config =
     (case getPRDetails env of
        Inl e \<Rightarrow> ([Call_getPRDetails], Inl e)
      | Inr prDetails \<Rightarrow>
         (let calls0 = [Call_getPRDetails, Call_getChangedFiles (excludePatterns config)] in
          case getChangedFiles env (excludePatterns config) of
            Inl e \<Rightarrow> (calls0, Inl e)
          | Inr files \<Rightarrow>
             if length files = 0 then
               (calls0,
                Inr \<lparr>totalFiles = 0, filesReviewed = 0, totalComments = 0, criticalIssues = 0,
                     warnings = 0, suggestions = 0, summary = ''No files to review''\<rparr>)
             else
               (let filesToReview =
                      (if maxFiles config > 0 then take (nat (maxFiles config)) files else files)
                in case reviewLoop rt env config prDetails filesToReview (calls0, [], []) of
                     (calls1, allComments, fileResults) \<Rightarrow>
                       (let perFile =
                              map (\<lambda>r. (filePath r, FileResult.summary r, issueCount r)) fileResults;
                            calls2 = calls1 @ [Call_generateSummary perFile (prompt config)]
                        in case generateSummary rt env perFile (prompt config) of
                             Inl e \<Rightarrow> (calls2, Inl e)
                           | Inr overallSummary \<Rightarrow>
                              (let nComments = length allComments;
                                   nCritical =
                                     foldl (\<lambda>sum r. sum + FileResult.criticalCount r) 0 fileResults;
                                   nWarnings =
                                     foldl (\<lambda>sum r. sum + FileResult.warningCount r) 0 fileResults;
                                   nSuggestions =
                                     foldl (\<lambda>sum r. sum + FileResult.suggestionCount r) 0 fileResults
                               in case postReview env config allComments fileResults overallSummary
                                         nCritical nWarnings nSuggestions of
                                    (posted, Inl e) \<Rightarrow> (calls2 @ posted, Inl e)
                                  | (posted, Inr u) \<Rightarrow>
                                     (calls2 @ posted,
                                      Inr \<lparr>totalFiles = length files,
                                           filesReviewed = length fileResults,
                                           totalComments = nComments,
                                           criticalIssues = nCritical,
                                           warnings = nWarnings,
                                           suggestions = nSuggestions,
                                           summary = overallSummary\<rparr>))))))"

section \<open>The unified diff and the numbers of the lines of the new file\<close>

text \<open>
  The specification describes a unified diff as an ordered sequence of hunks, each with
  its \<open>newStart\<close> and an ordered sequence of lines tagged context, added or removed; the
  number of a line in the new file grows by one with every context or added line of a
  hunk and is unaffected by a removed line. A diff has a fourth kind of body line, the
  marker \<^verbatim>\<open>\ No newline at end of file\<close>, which starts with a backslash, belongs to
  neither file and has no number. The definitions of this section follow those words,
  not the program: they say which raw line carries which number of the new file.
\<close>

datatype tag = Context | Added | Removed | NoNewline

record hunk =
  hunk_header :: string
  hunk_newStart :: int
  hunk_lines :: "(tag \<times> string) list"

text \<open>The raw lines of the diff text.\<close>

fun render :: "hunk list \<Rightarrow> string list" where
  "render [] = []"
| "render (h # hs) = hunk_header h # map snd (hunk_lines h) @ render hs"

text \<open>
  For each raw line of a hunk body, its tag and its number in the new file; a removed line
  and a marker have none. \<open>n\<close> is the number of the next line of the new file.
\<close>

fun bodyInfo :: "int \<Rightarrow> (tag \<times> string) list \<Rightarrow> (tag \<times> int) option list" where
  "bodyInfo n [] = []"
| "bodyInfo n ((Removed, s) # ls) = None # bodyInfo n ls"
| "bodyInfo n ((NoNewline, s) # ls) = None # bodyInfo n ls"
| "bodyInfo n ((tg, s) # ls) = Some (tg, n) # bodyInfo (n + 1) ls"

text \<open>The same for every raw line of the diff; a header line has none.\<close>

fun diffInfo :: "hunk list \<Rightarrow> (tag \<times> int) option list" where
  "diffInfo [] = []"
| "diffInfo (h # hs) = None # bodyInfo (hunk_newStart h) (hunk_lines h) @ diffInfo hs"

text \<open>A raw line starts with a backslash.\<close>

definition backslashed :: "string \<Rightarrow> bool" where
  "backslashed s = startsWith s [CHR 0x5C]"

text \<open>
  A raw line agrees with its tag: the prefix \<open>+\<close>, the prefix \<open>-\<close>, the backslash, or none
  of the three.
\<close>

fun lineTagged :: "tag \<times> string \<Rightarrow> bool" where
  "lineTagged (Added, s) = startsWith s ''+''"
| "lineTagged (Removed, s) = startsWith s ''-''"
| "lineTagged (NoNewline, s) = backslashed s"
| "lineTagged (Context, s) =
     (\<not> startsWith s ''+'' \<and> \<not> startsWith s ''-'' \<and> \<not> backslashed s)"

text \<open>The header line has the format of a hunk header and states the hunk's \<open>newStart\<close>.\<close>

definition headerOK :: "hunk \<Rightarrow> bool" where
  "headerOK h =
     (case matchHunkAt (hunk_header h) of
        None \<Rightarrow> False
      | Some ds \<Rightarrow> decimalValue ds = hunk_newStart h)"

text \<open>The number of lines of the new file in a hunk body.\<close>

fun countNew :: "(tag \<times> string) list \<Rightarrow> int" where
  "countNew [] = 0"
| "countNew ((Removed, s) # ls) = countNew ls"
| "countNew ((NoNewline, s) # ls) = countNew ls"
| "countNew ((tg, s) # ls) = 1 + countNew ls"

text \<open>
  A valid diff: every hunk is well formed, and the hunks come in increasing order of
  \<open>newStart\<close> without overlap (\<open>lo\<close> is the first line of the new file that is still free).
\<close>

fun validFrom :: "int \<Rightarrow> hunk list \<Rightarrow> bool" where
  "validFrom lo [] = True"
| "validFrom lo (h # hs) =
     (headerOK h \<and> list_all lineTagged (hunk_lines h) \<and> lo \<le> hunk_newStart h \<and>
      validFrom (hunk_newStart h + countNew (hunk_lines h)) hs)"

definition validDiff :: "hunk list \<Rightarrow> bool" where
  "validDiff d = validFrom 0 d"

text \<open>No line of a hunk body contains text of the format of a hunk header.\<close>

definition headerFree :: "hunk list \<Rightarrow> bool" where
  "headerFree d = list_all (\<lambda>h. list_all (\<lambda>l. hunkMatch (snd l) = None) (hunk_lines h)) d"

text \<open>
  The line numbers of the diff are integers that a double holds exactly: in every hunk,
  \<open>newStart\<close> plus the number of body lines is at most \<open>2^53\<close>.
\<close>

definition safeIntegers :: "hunk list \<Rightarrow> bool" where
  "safeIntegers d =
     list_all (\<lambda>h. hunk_newStart h + int (length (hunk_lines h)) \<le> 2 ^ 53) d"

text \<open>
  The search the specification describes, on the numbered lines: the 1-based index of the
  first added line whose number is the target (\<open>i\<close> is the index of the head).
\<close>

fun firstAdded :: "rat \<Rightarrow> (tag \<times> int) option list \<Rightarrow> nat \<Rightarrow> nat option" where
  "firstAdded t [] i = None"
| "firstAdded t (Some (Added, n) # xs) i =
     (if of_int n = t then Some (i + 1) else firstAdded t xs (i + 1))"
| "firstAdded t (x # xs) i = firstAdded t xs (i + 1)"

text \<open>The numbers of the numbered lines grow strictly, starting at \<open>lo\<close> or above.\<close>

fun increasingFrom :: "int \<Rightarrow> (tag \<times> int) option list \<Rightarrow> bool" where
  "increasingFrom lo [] = True"
| "increasingFrom lo (None # xs) = increasingFrom lo xs"
| "increasingFrom lo (Some (tg, n) # xs) = (lo \<le> n \<and> increasingFrom (n + 1) xs)"

text \<open>
  The values of the program's counter, line by line, for use in the proofs: the program
  increments its counter at every body line without the prefix \<open>+\<close> or \<open>-\<close>, so also at a
  marker. \<open>c\<close> is the value the counter takes at the next line that it counts.
\<close>

fun counterBody :: "int \<Rightarrow> (tag \<times> string) list \<Rightarrow> (tag \<times> int) option list" where
  "counterBody c [] = []"
| "counterBody c ((Removed, s) # ls) = None # counterBody c ls"
| "counterBody c ((NoNewline, s) # ls) = None # counterBody (c + 1) ls"
| "counterBody c ((tg, s) # ls) = Some (tg, c) # counterBody (c + 1) ls"

fun counterInfo :: "hunk list \<Rightarrow> (tag \<times> int) option list" where
  "counterInfo [] = []"
| "counterInfo (h # hs) =
     None # counterBody (hunk_newStart h) (hunk_lines h) @ counterInfo hs"

text \<open>An entry of the counter's list stands over the entry of the numbers' list.\<close>

fun over :: "(tag \<times> int) option \<Rightarrow> (tag \<times> int) option \<Rightarrow> bool" where
  "over None None = True"
| "over (Some (tg', m')) (Some (tg, m)) = (tg' = tg \<and> m \<le> m')"
| "over y x = False"

text \<open>A number of the host language is at least \<open>k\<close>.\<close>

fun notBelow :: "int \<Rightarrow> jsnum \<Rightarrow> bool" where
  "notBelow k (Finite c) = (k \<le> c)"
| "notBelow k PosInfinity = True"
| "notBelow k NegInfinity = False"

section \<open>Notions used to state the properties\<close>

text \<open>Some line of the text contains a hunk header whose \<open>newStart\<close> is 0.\<close>

definition zeroStart :: "string list \<Rightarrow> bool" where
  "zeroStart patchLines =
     list_ex (\<lambda>l. case hunkMatch l of None \<Rightarrow> False | Some ds \<Rightarrow> parseInt10 ds = Finite 0)
       patchLines"

text \<open>A number is an integer.\<close>

definition isInteger :: "rat \<Rightarrow> bool" where
  "isInteger q = (of_int \<lfloor>q\<rfloor> = q)"

text \<open>
  A candidate is an object whose \<open>line\<close> member is a number and whose \<open>message\<close> member is
  truthy: present and not \<open>null\<close>, \<open>false\<close>, \<open>0\<close> or the empty string.
\<close>

fun keptCandidate :: "json \<Rightarrow> bool" where
  "keptCandidate (JObj members) =
     (isNumber (map_of members ''line'') \<and> truthy (map_of members ''message''))"
| "keptCandidate v = False"

text \<open>An issue with its \<open>suggestion\<close> member taken away.\<close>

fun withoutSuggestion :: "json \<Rightarrow> json" where
  "withoutSuggestion (JObj members) = JObj (filter (\<lambda>m. fst m \<noteq> ''suggestion'') members)"
| "withoutSuggestion v = v"

text \<open>
  A file the loop of \<open>runReview\<close> passes over without a call: its status is \<open>removed\<close>, or it
  has no patch.
\<close>

definition skipped :: "PullRequestFile \<Rightarrow> bool" where
  "skipped file = (status file = ''removed'' \<or> \<not> present (patch file))"

text \<open>\<open>filesToReview\<close>: the files that are left after the limit of \<open>maxFiles\<close>.\<close>

definition limited :: "Config \<Rightarrow> PullRequestFile list \<Rightarrow> PullRequestFile list" where
  "limited config files =
     (if maxFiles config > 0 then take (nat (maxFiles config)) files else files)"

text \<open>The call to the engine that the loop makes for a file, and its outcome.\<close>

definition reviewCallOf :: "Config \<Rightarrow> PRDetails \<Rightarrow> PullRequestFile \<Rightarrow> call" where
  "reviewCallOf config prDetails file =
     Call_reviewCode (filename file) (patchOrEmpty file) (prompt config)
       (Some (title prDetails)) (orUndefined (PRDetails.body prDetails))"

definition reviewOf ::
  "js_runtime \<Rightarrow> services \<Rightarrow> Config \<Rightarrow> PRDetails \<Rightarrow> PullRequestFile \<Rightarrow> js_error + FileReview" where
  "reviewOf rt env config prDetails file =
     snd (reviewFile rt env config file (Some (title prDetails))
            (orUndefined (PRDetails.body prDetails)))"

text \<open>
  The files that completed review, in order, each with its review: the files that are
  not passed over and whose review returned.
\<close>

fun completed ::
  "js_runtime \<Rightarrow> services \<Rightarrow> Config \<Rightarrow> PRDetails \<Rightarrow> PullRequestFile list \<Rightarrow>
   (PullRequestFile \<times> FileReview) list" where
  "completed rt env config prDetails [] = []"
| "completed rt env config prDetails (file # rest) =
     (if skipped file then completed rt env config prDetails rest
      else (case reviewOf rt env config prDetails file of
              Inl e \<Rightarrow> completed rt env config prDetails rest
            | Inr r \<Rightarrow> (file, r) # completed rt env config prDetails rest))"

text \<open>The entry of \<open>fileResults\<close> for a file and its review.\<close>

definition toFileResult :: "PullRequestFile \<times> FileReview \<Rightarrow> FileResult" where
  "toFileResult fr =
     \<lparr>filePath = filename (fst fr), summary = FileReview.summary (snd fr),
      issueCount = length (comments (snd fr)),
      criticalCount = FileReview.criticalCount (snd fr),
      warningCount = FileReview.warningCount (snd fr),
      suggestionCount = FileReview.suggestionCount (snd fr)\<rparr>"

text \<open>The per-file triples of path, summary and issue count that \<open>generateSummary\<close> is given.\<close>

definition perFileOf :: "(PullRequestFile \<times> FileReview) list \<Rightarrow> (string \<times> json \<times> nat) list" where
  "perFileOf reviewed =
     map (\<lambda>fr. (filename (fst fr), FileReview.summary (snd fr), length (comments (snd fr)))) reviewed"

fun isReviewCall :: "call \<Rightarrow> bool" where
  "isReviewCall (Call_reviewCode a b c d e) = True"
| "isReviewCall c = False"

text \<open>The member \<open>k\<close> of a decoded value, \<open>None\<close> where there is none.\<close>

definition field :: "json \<Rightarrow> string \<Rightarrow> json option" where
  "field v k = (case getProp v k of Inl e \<Rightarrow> None | Inr x \<Rightarrow> x)"

text \<open>The validated issues of a file: what the parser returned for it.\<close>

definition validatedOf ::
  "js_runtime \<Rightarrow> services \<Rightarrow> Config \<Rightarrow> PRDetails \<Rightarrow> PullRequestFile \<Rightarrow> ReviewIssue list" where
  "validatedOf rt env config prDetails file =
     (case reviewCode rt env (filename file) (patchOrEmpty file) (prompt config)
             (Some (title prDetails)) (orUndefined (PRDetails.body prDetails)) of
        Inl e \<Rightarrow> []
      | Inr result \<Rightarrow> reviews result)"

text \<open>The severity of an issue is one of the labels; the line of an issue maps into the patch.\<close>

definition severityIn :: "string list \<Rightarrow> ReviewIssue \<Rightarrow> bool" where
  "severityIn labels issue = (field issue ''severity'' \<in> set (map (\<lambda>l. Some (JStr l)) labels))"

definition mappable :: "string \<Rightarrow> ReviewIssue \<Rightarrow> bool" where
  "mappable patchText issue =
     (mapIssueLine (field issue ''line'') (split_lines patchText) \<noteq> None)"

section \<open>A concrete runtime and concrete collaborators\<close>

text \<open>
  The examples run the program in this setting: a decoder that knows the texts of a table
  and rejects every other text, upper-casing of the ASCII letters, and the string
  conversion of a plain object (the examples convert no other value that is not a
  string); a hosting service that returns the given files and accepts every post; an
  engine whose answer to a review request is given as a function of the user prompt.
\<close>

definition asciiUpper :: "string \<Rightarrow> string" where
  "asciiUpper s = map (\<lambda>c. let n = (of_char c :: nat) in if 97 \<le> n \<and> n \<le> 122 then char_of (n - 32) else c) s"

definition sampleRuntime :: "(string \<times> json) list \<Rightarrow> js_runtime" where
  "sampleRuntime table =
     \<lparr>JSON_parse = (\<lambda>s. case map_of table s of None \<Rightarrow> Inl SyntaxError | Some v \<Rightarrow> Inr v),
      toUpperCase = asciiUpper,
      ToString = (\<lambda>v. Inr ''[object Object]'')\<rparr>"

definition sampleConfig :: "int \<Rightarrow> Config" where
  "sampleConfig m =
     \<lparr>llmBaseUrl = ''https://api.example/v1'', llmModel = ''model'', llmApiKey = ''key'',
      prompt = ''Review.'', githubToken = ''token'', reviewMode = ''detailed'', maxFiles = m,
      excludePatterns = [''*.lock''], failOnError = False, postAsReview = True\<rparr>"

definition sampleFile :: "string \<Rightarrow> PullRequestFile" where
  "sampleFile name =
     \<lparr>filename = name, status = ''modified'', patch = Some ''@@ -1 +1,2 @@\<newline> a\<newline>+b''\<rparr>"

definition sampleServices :: "PullRequestFile list \<Rightarrow> (string \<Rightarrow> js_error + string option) \<Rightarrow> services" where
  "sampleServices files engine =
     \<lparr>getPRDetails = Inr \<lparr>title = ''Change'', body = None\<rparr>,
      getChangedFiles = (\<lambda>patterns. Inr files),
      createReview = (\<lambda>cs text event. Inr ()),
      postReviewComments = (\<lambda>cs. Inr ()),
      postGeneralComment = (\<lambda>text. Inr ()),
      reviewCompletion = (\<lambda>systemPrompt userPrompt. engine userPrompt),
      summaryCompletion = (\<lambda>systemPrompt userPrompt. Inr (Some ''Fine.''))\<rparr>"


text \<open>
  An answer of the engine with two issues, and what the decoder returns for it. In the
  patch of \<^const>\<open>sampleFile\<close> line 2 of the new file is the added line at position 3 of
  the patch, and line 99 is not there.
\<close>

definition sampleAnswer :: string where
  "sampleAnswer = ''{\"reviews\":[{\"line\":2,\"severity\":\"warning\",\"message\":\"m\"},{\"line\":99,\"severity\":\"critical\",\"message\":\"far\"}],\"summary\":\"ok\"}''"

definition sampleDecoded :: json where
  "sampleDecoded =
     JObj [(''reviews'', JArr
              [JObj [(''line'', JNum 2), (''severity'', JStr ''warning''), (''message'', JStr ''m'')],
               JObj [(''line'', JNum 99), (''severity'', JStr ''critical''), (''message'', JStr ''far'')]]),
           (''summary'', JStr ''ok'')]"

section \<open>Rounding and the counter\<close>

lemma bitLength_bound: "0 < n \<Longrightarrow> 2 ^ (bitLength n - 1) \<le> n"
proof (induction n rule: bitLength.induct)
  case (1 n)
  from "1.prems" have bl: "bitLength n = Suc (bitLength (n div 2))"
    by (simp add: bitLength.simps [of n])
  show ?case
  proof (cases "n div 2 \<le> 0")
    case True
    then have "bitLength (n div 2) = 0" by (simp add: bitLength.simps [of "n div 2"])
    with bl "1.prems" show ?thesis by simp
  next
    case False
    then have pos: "0 < n div 2" by simp
    with "1.IH" "1.prems" have ih: "2 ^ (bitLength (n div 2) - 1) \<le> n div 2" by simp
    from pos have "bitLength (n div 2) = Suc (bitLength (n div 2) - 1)"
      by (simp add: bitLength.simps [of "n div 2"])
    then have "(2::int) ^ bitLength (n div 2) = 2 * 2 ^ (bitLength (n div 2) - 1)"
      by (metis power_Suc)
    also have "\<dots> \<le> 2 * (n div 2)" using ih by simp
    also have "\<dots> \<le> n" by simp
    finally show ?thesis by (simp add: bl)
  qed
qed

lemma roundMagnitude_pos:
  assumes "0 < n"
  shows "0 < roundMagnitude n"
proof (cases "n \<le> 2 ^ 53")
  case True
  with assms show ?thesis by (simp add: roundMagnitude_def)
next
  case False
  let ?e = "bitLength n - 53"
  have "(2::int) ^ ?e \<le> 2 ^ (bitLength n - 1)"
    by (rule power_increasing) simp_all
  also have "\<dots> \<le> n" using assms by (rule bitLength_bound)
  finally have "0 < n div 2 ^ ?e"
    by (simp add: pos_imp_zdiv_pos_iff)
  then have "0 < (n div 2 ^ ?e) * 2 ^ ?e" "0 < (n div 2 ^ ?e + 1) * 2 ^ ?e"
    by simp_all
  with False show ?thesis
    by (simp add: roundMagnitude_def Let_def)
qed

lemma toNumber_exact:
  assumes "\<bar>n\<bar> \<le> 2 ^ 53"
  shows "toNumber n = Finite n"
proof -
  have "(2::int) ^ 53 < 2 ^ 1024" by (rule power_strict_increasing) simp_all
  with assms have "\<not> 2 ^ 1024 \<le> \<bar>n\<bar>" by linarith
  with assms show ?thesis
    by (simp add: toNumber_def roundMagnitude_def Let_def)
qed

lemma notBelow_mono: "notBelow k x \<Longrightarrow> k' \<le> k \<Longrightarrow> notBelow k' x"
  by (cases x) simp_all

lemma toNumber_notBelow:
  "0 \<le> n \<Longrightarrow> notBelow 0 (toNumber n)"
  "1 \<le> n \<Longrightarrow> notBelow 1 (toNumber n)"
proof -
  show "1 \<le> n \<Longrightarrow> notBelow 1 (toNumber n)"
    using roundMagnitude_pos [of n] by (simp add: toNumber_def Let_def)
  then show "0 \<le> n \<Longrightarrow> notBelow 0 (toNumber n)"
    by (cases "n = 0") (auto simp: toNumber_exact intro: notBelow_mono)
qed

lemma plusOne_notBelow:
  "notBelow (- 1) x \<Longrightarrow> notBelow 0 (plusOne x)"
  "notBelow 0 x \<Longrightarrow> notBelow 1 (plusOne x)"
  by (cases x; simp add: toNumber_notBelow)+

lemma minusOne_notBelow:
  "notBelow 0 x \<Longrightarrow> notBelow (- 1) (minusOne x)"
  "notBelow 1 x \<Longrightarrow> notBelow 0 (minusOne x)"
proof -
  show "notBelow 1 x \<Longrightarrow> notBelow 0 (minusOne x)"
    by (cases x) (simp_all add: toNumber_notBelow)
  show "notBelow 0 x \<Longrightarrow> notBelow (- 1) (minusOne x)"
  proof (cases x)
    case (Finite c)
    assume "notBelow 0 x"
    with Finite have "0 \<le> c" by simp
    then consider "c = 0" | "0 \<le> c - 1" by linarith
    then show ?thesis
    proof cases
      case 1
      with Finite show ?thesis by (simp add: toNumber_exact)
    next
      case 2
      then have "notBelow 0 (toNumber (c - 1))" by (rule toNumber_notBelow)
      with Finite show ?thesis by (auto intro: notBelow_mono)
    qed
  qed simp_all
qed

lemma decimalValue_nonneg: "0 \<le> decimalValue ds"
proof -
  have "0 \<le> a \<Longrightarrow> 0 \<le> foldl (\<lambda>n c. 10 * n + int (digitVal c)) a ds" for a
    by (induction ds arbitrary: a) simp_all
  then show ?thesis by (simp add: decimalValue_def)
qed

lemma parseInt10_notBelow:
  "notBelow 0 (parseInt10 ds)"
  "parseInt10 ds \<noteq> Finite 0 \<Longrightarrow> notBelow 1 (parseInt10 ds)"
proof -
  show "notBelow 0 (parseInt10 ds)"
    unfolding parseInt10_def using decimalValue_nonneg by (rule toNumber_notBelow)
  assume nz: "parseInt10 ds \<noteq> Finite 0"
  have "decimalValue ds \<noteq> 0"
  proof
    assume "decimalValue ds = 0"
    then have "parseInt10 ds = Finite 0" by (simp add: parseInt10_def toNumber_exact)
    with nz show False by simp
  qed
  with decimalValue_nonneg [of ds] have "1 \<le> decimalValue ds" by linarith
  then show "notBelow 1 (parseInt10 ds)"
    unfolding parseInt10_def by (rule toNumber_notBelow)
qed

lemma strictEq_below_one:
  assumes "strictEq x t" and "t < 1" and "notBelow 0 x"
  shows "t = 0 \<and> \<not> notBelow 1 x"
proof (cases x)
  case (Finite c)
  with assms have e: "of_int c = t" and "0 \<le> c" by simp_all
  with assms(2) have "c < 1" by (metis of_int_less_1_iff)
  with \<open>0 \<le> c\<close> have "c = 0" by simp
  with e Finite show ?thesis by simp
qed (use assms in simp_all)

section \<open>Targets below the first line\<close>

lemma mapLoop_below_one:
  assumes "t < 1" and "notBelow (- 1) cur" and "t = 0 \<longrightarrow> notBelow 0 cur"
    and "t = 0 \<longrightarrow> \<not> zeroStart ls"
  shows "mapLoop t ls i cur inH = None"
  using assms
proof (induction ls arbitrary: i cur inH)
  case Nil
  then show ?case by simp
next
  case (Cons l ls)
  have up0: "notBelow 0 (plusOne cur)"
    using Cons.prems(2) by (rule plusOne_notBelow)
  have up1: "t = 0 \<longrightarrow> notBelow 1 (plusOne cur)"
    using Cons.prems(3) by (auto intro: plusOne_notBelow)
  have ne: "\<not> strictEq (plusOne cur) t"
    using strictEq_below_one [OF _ Cons.prems(1) up0] up1 by blast
  from Cons.prems(4) have z: "t = 0 \<longrightarrow> \<not> zeroStart ls"
    by (simp add: zeroStart_def)
  have same: "mapLoop t ls (i + 1) cur inH' = None" for inH'
    using Cons.prems(1,2,3) z by (rule Cons.IH)
  have up: "mapLoop t ls (i + 1) (plusOne cur) inH' = None" for inH'
  proof (rule Cons.IH [OF Cons.prems(1) _ _ z])
    show "notBelow (- 1) (plusOne cur)" using up0 by (rule notBelow_mono) simp
    show "t = 0 \<longrightarrow> notBelow 0 (plusOne cur)" using up0 by simp
  qed
  show ?case
  proof (cases "hunkMatch l")
    case None
    with ne same up show ?thesis by simp
  next
    case (Some ds)
    have "mapLoop t ls (i + 1) (minusOne (parseInt10 ds)) True = None"
    proof (rule Cons.IH [OF Cons.prems(1) _ _ z])
      show "notBelow (- 1) (minusOne (parseInt10 ds))"
        by (intro minusOne_notBelow parseInt10_notBelow)
      show "t = 0 \<longrightarrow> notBelow 0 (minusOne (parseInt10 ds))"
      proof
        assume "t = 0"
        with Cons.prems(4) Some have "parseInt10 ds \<noteq> Finite 0"
          by (auto simp: zeroStart_def)
        then show "notBelow 0 (minusOne (parseInt10 ds))"
          by (intro minusOne_notBelow parseInt10_notBelow)
      qed
    qed
    with Some show ?thesis by simp
  qed
qed

text \<open>
  Claim C5, as the program has it. The mapper has no guard on \<open>targetLine\<close>; it returns a
  value of its result type on every input, so it does not throw. For a target below 1 it
  returns none, unless the target is 0 and a line of the text contains a hunk header
  whose \<open>newStart\<close> is 0: the counter starts at \<open>newStart - 1\<close> and is compared only after an
  increment, so it is never negative when compared, and it is 0 only after such a header.
\<close>

theorem mapLineToDiff_below_one:
  assumes "targetLine < 1" and "targetLine \<noteq> 0 \<or> \<not> zeroStart patchLines"
  shows "mapLineToDiff targetLine patchLines = None"
  unfolding mapLineToDiff_def
  using assms by (intro mapLoop_below_one) auto

theorem mapLineToDiff_below_one_witness:
  "mapLineToDiff 0 (split_lines ''@@ -5,3 +10,4 @@\<newline> a\<newline>+b'') = None \<and>
   mapLineToDiff (- 3) (split_lines ''@@ -1 +0,0 @@\<newline>+x'') = None \<and>
   mapLineToDiff (1 / 2) (split_lines ''@@ -1 +0,0 @@\<newline>+x'') = None"
proof -
  have "\<not> zeroStart (split_lines ''@@ -5,3 +10,4 @@\<newline> a\<newline>+b'')" by code_simp
  then show ?thesis
    using mapLineToDiff_below_one [of 0 "split_lines ''@@ -5,3 +10,4 @@\<newline> a\<newline>+b''"]
      mapLineToDiff_below_one [of "- 3" "split_lines ''@@ -1 +0,0 @@\<newline>+x''"]
      mapLineToDiff_below_one [of "1 / 2" "split_lines ''@@ -1 +0,0 @@\<newline>+x''"]
    by simp
qed

text \<open>
  The claim as stated fails at target 0: after the header \<open>@@ -1 +0,0 @@\<close> the counter is
  \<open>-1\<close>, and the added line that follows brings it to 0.
\<close>

theorem mapLineToDiff_zero_counterexample:
  "(0 :: rat) < 1 \<and> mapLineToDiff 0 (split_lines ''@@ -1 +0,0 @@\<newline>+x'') = Some 2"
  by code_simp

section \<open>The line mapper against the numbers of the new file\<close>

lemma length_bodyInfo: "length (bodyInfo n ls) = length ls"
  by (induction n ls rule: bodyInfo.induct) simp_all

lemma length_counterBody: "length (counterBody c ls) = length ls"
  by (induction c ls rule: counterBody.induct) simp_all

lemma length_diffInfo: "length (diffInfo d) = length (render d)"
  by (induction d) (simp_all add: length_bodyInfo)

lemma length_counterInfo: "length (counterInfo d) = length (render d)"
  by (induction d) (simp_all add: length_counterBody)

lemma hunkMatch_anchored: "matchHunkAt s = Some ds \<Longrightarrow> hunkMatch s = Some ds"
  by (cases s) simp_all

lemma firstAdded_append:
  "firstAdded t (xs @ ys) j =
     (case firstAdded t xs j of Some p \<Rightarrow> Some p | None \<Rightarrow> firstAdded t ys (j + length xs))"
  by (induction t xs j rule: firstAdded.induct) (simp_all cong: option.case_cong)

lemma plusOne_exact:
  assumes "- 1 \<le> c" and "c + 1 \<le> 2 ^ 53"
  shows "plusOne (Finite c) = Finite (c + 1)"
  using assms by (simp add: toNumber_exact)

text \<open>
  Inside a hunk body whose lines agree with their tags and contain no header text, and
  while the counter stays within the integers a double holds, the loop of the program
  finds what the search on the counter's values finds, or leaves the body.
\<close>

lemma mapLoop_body:
  assumes "list_all lineTagged ls" and "list_all (\<lambda>l. hunkMatch (snd l) = None) ls"
    and "- 1 \<le> cur" and "cur + int (length ls) \<le> 2 ^ 53"
  shows "\<exists>c'. mapLoop t (map snd ls @ rest) i (Finite cur) True =
     (case firstAdded t (counterBody (cur + 1) ls) i of
        Some p \<Rightarrow> Some p
      | None \<Rightarrow> mapLoop t rest (i + length ls) c' True)"
  using assms
proof (induction ls arbitrary: i cur)
  case Nil
  then show ?case by auto
next
  case (Cons l ls)
  obtain tg s where l: "l = (tg, s)" by (cases l)
  from Cons.prems l have hm: "hunkMatch s = None" and tl: "lineTagged (tg, s)"
    and r1: "list_all lineTagged ls" and r2: "list_all (\<lambda>l. hunkMatch (snd l) = None) ls"
    by simp_all
  from Cons.prems have inc: "plusOne (Finite cur) = Finite (cur + 1)"
    by (intro plusOne_exact) simp_all
  from Cons.prems have b1: "- 1 \<le> cur + 1" "cur + 1 + int (length ls) \<le> 2 ^ 53"
    and b0: "cur + int (length ls) \<le> 2 ^ 53"
    by simp_all
  from Cons.IH [OF r1 r2 b1, where i = "Suc i"] obtain c1 where
    up: "mapLoop t (map snd ls @ rest) (Suc i) (Finite (cur + 1)) True =
       (case firstAdded t (counterBody (cur + 1 + 1) ls) (Suc i) of
          Some p \<Rightarrow> Some p
        | None \<Rightarrow> mapLoop t rest (Suc i + length ls) c1 True)"
    by blast
  from Cons.IH [OF r1 r2 Cons.prems(3) b0, where i = "Suc i"] obtain c0 where
    same: "mapLoop t (map snd ls @ rest) (Suc i) (Finite cur) True =
       (case firstAdded t (counterBody (cur + 1) ls) (Suc i) of
          Some p \<Rightarrow> Some p
        | None \<Rightarrow> mapLoop t rest (Suc i + length ls) c0 True)"
    by blast
  show ?case
  proof (cases tg)
    case Context
    with tl hm l inc up show ?thesis
      by (intro exI [of _ c1]) (simp add: backslashed_def cong: option.case_cong)
  next
    case Added
    with tl hm l inc up show ?thesis
      by (intro exI [of _ c1]) (simp cong: option.case_cong)
  next
    case Removed
    with tl hm l same show ?thesis
      by (intro exI [of _ c0]) (auto simp: startsWith_def cong: option.case_cong)
  next
    case NoNewline
    with tl hm l inc up show ?thesis
      by (intro exI [of _ c1]) (auto simp: backslashed_def startsWith_def cong: option.case_cong)
  qed
qed

lemma mapLoop_render:
  assumes "list_all headerOK d" and "list_all (\<lambda>h. list_all lineTagged (hunk_lines h)) d"
    and "headerFree d" and "safeIntegers d"
  shows "mapLoop t (render d) i cur inH = firstAdded t (counterInfo d) i"
  using assms
proof (induction d arbitrary: i cur inH)
  case Nil
  then show ?case by simp
next
  case (Cons h hs)
  from Cons.prems obtain ds where m: "matchHunkAt (hunk_header h) = Some ds"
    and p: "decimalValue ds = hunk_newStart h"
    by (auto simp: headerOK_def split: option.splits)
  from Cons.prems have b1: "list_all lineTagged (hunk_lines h)"
    and b2: "list_all (\<lambda>l. hunkMatch (snd l) = None) (hunk_lines h)"
    and r: "list_all headerOK hs" "list_all (\<lambda>h. list_all lineTagged (hunk_lines h)) hs"
      "headerFree hs" "safeIntegers hs"
    and bound: "hunk_newStart h + int (length (hunk_lines h)) \<le> 2 ^ 53"
    by (simp_all add: headerFree_def safeIntegers_def)
  note IH = Cons.IH [OF r]
  from p decimalValue_nonneg [of ds] have nn: "0 \<le> hunk_newStart h" by simp
  with bound have small: "\<bar>hunk_newStart h\<bar> \<le> 2 ^ 53" "\<bar>hunk_newStart h - 1\<bar> \<le> 2 ^ 53"
    by simp_all
  have start: "minusOne (parseInt10 ds) = Finite (hunk_newStart h - 1)"
    using small by (simp add: parseInt10_def p toNumber_exact)
  from nn bound have c: "- 1 \<le> hunk_newStart h - 1"
      "hunk_newStart h - 1 + int (length (hunk_lines h)) \<le> 2 ^ 53"
    by simp_all
  from mapLoop_body [OF b1 b2 c, of t "render hs" "Suc i"] obtain c' where
    body: "mapLoop t (map snd (hunk_lines h) @ render hs) (Suc i) (Finite (hunk_newStart h - 1)) True =
      (case firstAdded t (counterBody (hunk_newStart h) (hunk_lines h)) (Suc i) of
         Some p \<Rightarrow> Some p
       | None \<Rightarrow> mapLoop t (render hs) (Suc i + length (hunk_lines h)) c' True)"
    by auto
  show ?case
    using hunkMatch_anchored [OF m]
    by (simp add: start body IH firstAdded_append length_counterBody cong: option.case_cong)
qed

lemma validFrom_wellformed:
  "validFrom lo d \<Longrightarrow>
     list_all headerOK d \<and> list_all (\<lambda>h. list_all lineTagged (hunk_lines h)) d"
  by (induction d arbitrary: lo) auto

lemma increasing_body:
  "increasingFrom lo (bodyInfo lo ls @ ys) = increasingFrom (lo + countNew ls) ys"
  by (induction lo ls rule: bodyInfo.induct) (simp_all add: ac_simps)

lemma increasing_mono: "increasingFrom lo xs \<Longrightarrow> lo' \<le> lo \<Longrightarrow> increasingFrom lo' xs"
  by (induction lo xs rule: increasingFrom.induct) simp_all

lemma increasing_diff: "validFrom lo d \<Longrightarrow> increasingFrom lo (diffInfo d)"
proof (induction d arbitrary: lo)
  case Nil
  then show ?case by simp
next
  case (Cons h hs)
  then have "increasingFrom (hunk_newStart h + countNew (hunk_lines h)) (diffInfo hs)"
    by simp
  then have "increasingFrom (hunk_newStart h) (diffInfo (h # hs))"
    by (simp add: increasing_body)
  with Cons.prems show ?case
    by (auto intro: increasing_mono)
qed

lemma increasing_lower:
  "increasingFrom lo xs \<Longrightarrow> j < length xs \<Longrightarrow> xs ! j = Some (tg, n) \<Longrightarrow> lo \<le> n"
proof (induction lo xs arbitrary: j rule: increasingFrom.induct)
  case (1 lo)
  then show ?case by simp
next
  case (2 lo xs)
  then show ?case by (cases j) auto
next
  case (3 lo tg' m xs)
  then show ?case by (cases j) fastforce+
qed

lemma increasing_take: "increasingFrom lo xs \<Longrightarrow> increasingFrom lo (take k xs)"
proof (induction lo xs arbitrary: k rule: increasingFrom.induct)
  case (1 lo)
  then show ?case by simp
next
  case (2 lo xs)
  then show ?case by (cases k) simp_all
next
  case (3 lo tg m xs)
  then show ?case by (cases k) simp_all
qed

lemma increasing_drop:
  "increasingFrom lo xs \<Longrightarrow> j < length xs \<Longrightarrow> xs ! j = Some (tg, n) \<Longrightarrow>
   increasingFrom (n + 1) (drop (Suc j) xs)"
proof (induction lo xs arbitrary: j rule: increasingFrom.induct)
  case (1 lo)
  then show ?case by simp
next
  case (2 lo xs)
  then show ?case by (cases j) auto
next
  case (3 lo tg' m xs)
  then show ?case by (cases j) auto
qed

lemma firstAdded_above:
  "increasingFrom lo xs \<Longrightarrow> n < lo \<Longrightarrow> firstAdded (of_int n) xs i = None"
proof (induction lo xs arbitrary: i rule: increasingFrom.induct)
  case (3 lo tg m xs)
  then show ?case by (cases tg) auto
qed simp_all

text \<open>Where the numbers grow strictly, the search for the number of line \<open>j\<close> ends at \<open>j\<close>.\<close>

lemma firstAdded_at:
  "increasingFrom lo xs \<Longrightarrow> j < length xs \<Longrightarrow> xs ! j = Some (tg, n) \<Longrightarrow>
   firstAdded (of_int n) xs i = (if tg = Added then Some (i + j + 1) else None)"
proof (induction lo xs arbitrary: i j rule: increasingFrom.induct)
  case (1 lo)
  then show ?case by simp
next
  case (2 lo xs)
  then show ?case by (cases j) auto
next
  case (3 lo tg' m xs)
  show ?case
  proof (cases j)
    case 0
    with 3 show ?thesis by (cases tg) (auto simp: firstAdded_above)
  next
    case (Suc j')
    with 3 have inc: "increasingFrom (m + 1) xs" and at: "xs ! j' = Some (tg, n)"
      and len: "j' < length xs"
      by simp_all
    have "m < n"
      using increasing_lower [OF inc len at] by simp
    with 3 Suc show ?thesis by (cases tg') auto
  qed
qed

text \<open>
  The counter is never behind the number of the line: a marker moves it ahead, and every
  header sets it back to \<open>newStart\<close>.
\<close>

lemma over_body: "n \<le> c \<Longrightarrow> list_all2 over (counterBody c ls) (bodyInfo n ls)"
  by (induction n ls arbitrary: c rule: bodyInfo.induct) simp_all

lemma over_diff: "list_all2 over (counterInfo d) (diffInfo d)"
  by (induction d) (simp_all add: over_body list_all2_appendI)

text \<open>A search that stays over numbers above the target finds nothing.\<close>

lemma firstAdded_over:
  "list_all2 over ys xs \<Longrightarrow> increasingFrom lo xs \<Longrightarrow> n < lo \<Longrightarrow>
   firstAdded (of_int n) ys i = None"
proof (induction ys xs arbitrary: lo i rule: list_all2_induct)
  case Nil
  then show ?case by simp
next
  case (Cons y ys x xs)
  show ?case
  proof (cases x)
    case None
    with Cons show ?thesis by (cases y) simp_all
  next
    case (Some a)
    obtain tg m where a: "a = (tg, m)" by (cases a)
    with Some Cons.hyps(1) obtain m' where y: "y = Some (tg, m')" and le: "m \<le> m'"
      by (cases y) auto
    from Cons.prems Some a have lo: "lo \<le> m" and inc: "increasingFrom (m + 1) xs"
      by simp_all
    from lo Cons.prems(2) have "n < m + 1" by simp
    with inc have "firstAdded (of_int n) ys (i + 1) = None" by (rule Cons.IH)
    with y le lo Cons.prems(2) show ?thesis by (cases tg) auto
  qed
qed

text \<open>
  Up to a line with a number, and as long as no line before it starts with a backslash,
  the counter and the numbers of the lines agree.
\<close>

lemma body_agree:
  assumes "list_all lineTagged ls"
    and "list_all (\<lambda>l. \<not> backslashed l) (take j (map snd ls))"
    and "j < length ls \<Longrightarrow> bodyInfo n ls ! j \<noteq> None"
  shows "take (Suc j) (counterBody n ls) = take (Suc j) (bodyInfo n ls)"
  using assms
proof (induction ls arbitrary: j n)
  case Nil
  then show ?case by simp
next
  case (Cons l ls)
  obtain tg s where l: "l = (tg, s)" by (cases l)
  show ?case
  proof (cases j)
    case 0
    with Cons.prems(3) l show ?thesis by (cases tg) simp_all
  next
    case (Suc j')
    with Cons.prems l have tl: "lineTagged (tg, s)" and nb: "\<not> backslashed s"
      and r1: "list_all lineTagged ls"
      and r2: "list_all (\<lambda>l. \<not> backslashed l) (take j' (map snd ls))"
      by simp_all
    from tl nb have nm: "tg \<noteq> NoNewline" by auto
    have r3: "j' < length ls \<Longrightarrow> bodyInfo n' ls ! j' \<noteq> None"
      if "bodyInfo n (l # ls) = x # bodyInfo n' ls" for n' x
      using Cons.prems(3) Suc that by simp
    show ?thesis
    proof (cases tg)
      case Context
      with l Suc Cons.IH [OF r1 r2 r3 [of "Some (Context, n)" "n + 1"]] show ?thesis by simp
    next
      case Added
      with l Suc Cons.IH [OF r1 r2 r3 [of "Some (Added, n)" "n + 1"]] show ?thesis by simp
    next
      case Removed
      with l Suc Cons.IH [OF r1 r2 r3 [of None n]] show ?thesis by simp
    next
      case NoNewline
      with nm show ?thesis by simp
    qed
  qed
qed

lemma diff_agree:
  assumes "list_all (\<lambda>h. list_all lineTagged (hunk_lines h)) d"
    and "list_all (\<lambda>l. \<not> backslashed l) (take i (render d))"
    and "i < length (render d) \<Longrightarrow> diffInfo d ! i \<noteq> None"
  shows "take (Suc i) (counterInfo d) = take (Suc i) (diffInfo d)"
  using assms
proof (induction d arbitrary: i)
  case Nil
  then show ?case by simp
next
  case (Cons h hs)
  let ?ls = "hunk_lines h"
  from Cons.prems(1) have t1: "list_all lineTagged ?ls"
    and t2: "list_all (\<lambda>h. list_all lineTagged (hunk_lines h)) hs"
    by simp_all
  show ?case
  proof (cases i)
    case 0
    then show ?thesis by simp
  next
    case (Suc i')
    show ?thesis
    proof (cases "i' < length ?ls")
      case True
      from Cons.prems(2) Suc True
      have nb: "list_all (\<lambda>l. \<not> backslashed l) (take i' (map snd ?ls))"
        by simp
      have at: "bodyInfo (hunk_newStart h) ?ls ! i' \<noteq> None"
        using Cons.prems(3) Suc True by (simp add: nth_append length_bodyInfo)
      from body_agree [OF t1 nb at] True Suc show ?thesis
        by (simp add: length_bodyInfo length_counterBody)
    next
      case False
      then have ge: "length ?ls \<le> i'" by simp
      from Cons.prems(2) Suc ge
      have nb: "list_all (\<lambda>l. \<not> backslashed l) (take (length ?ls) (map snd ?ls))"
        and nbr: "list_all (\<lambda>l. \<not> backslashed l) (take (i' - length ?ls) (render hs))"
        by simp_all
      from body_agree [OF t1 nb, of "hunk_newStart h"]
      have body: "counterBody (hunk_newStart h) ?ls = bodyInfo (hunk_newStart h) ?ls"
        by (simp add: length_bodyInfo length_counterBody)
      have at: "i' - length ?ls < length (render hs) \<Longrightarrow> diffInfo hs ! (i' - length ?ls) \<noteq> None"
        using Cons.prems(3) Suc ge by (simp add: nth_append length_bodyInfo)
      from Cons.IH [OF t2 nbr at]
      have "take (Suc (i' - length ?ls)) (counterInfo hs) = take (Suc (i' - length ?ls)) (diffInfo hs)" .
      with body Suc ge show ?thesis
        by (simp add: length_bodyInfo Suc_diff_le)
    qed
  qed
qed

text \<open>
  Claim C1, as the program has it. In a valid unified diff whose body lines contain no
  text of the format of a hunk header and whose line numbers are integers that a double
  holds exactly, let raw line \<open>i\<close> (counted from 0) be a context or added line with number
  \<open>n\<close> in the new file, and let no raw line before it start with a backslash. If the line
  is an added line, the mapper returns the position \<open>i + 1\<close>, the 1-based index of exactly
  that raw line. If it is a context line, the mapper returns none: the counter is
  incremented for a context line, but only after an added line is it compared with the
  target.
\<close>

theorem mapLineToDiff_present_line:
  assumes "validDiff d" and "headerFree d" and "safeIntegers d"
    and "i < length (render d)" and "diffInfo d ! i = Some (tg, n)"
    and "list_all (\<lambda>l. \<not> backslashed l) (take i (render d))"
  shows "mapLineToDiff (of_int n) (render d) = (if tg = Added then Some (i + 1) else None)"
proof -
  let ?xs = "diffInfo d" and ?ys = "counterInfo d"
  from assms(1) have wf: "list_all headerOK d"
      "list_all (\<lambda>h. list_all lineTagged (hunk_lines h)) d"
    unfolding validDiff_def by (auto dest: validFrom_wellformed)
  from assms(1) have inc: "increasingFrom 0 ?xs"
    unfolding validDiff_def by (rule increasing_diff)
  from assms(4) have len: "i < length ?xs" by (simp add: length_diffInfo)
  have pre: "take (Suc i) ?ys = take (Suc i) ?xs"
    using wf(2) assms(6) by (rule diff_agree) (simp add: assms(5))
  have found: "firstAdded (of_int n) (take (Suc i) ?xs) 0 =
      (if tg = Added then Some (0 + i + 1) else None)"
    using increasing_take [OF inc] by (rule firstAdded_at) (use len assms(5) in simp_all)
  have later: "firstAdded (of_int n) (drop (Suc i) ?ys) k = None" for k
  proof (rule firstAdded_over)
    show "list_all2 over (drop (Suc i) ?ys) (drop (Suc i) ?xs)"
      using over_diff by (rule list_all2_dropI)
    show "increasingFrom (n + 1) (drop (Suc i) ?xs)"
      using inc len assms(5) by (rule increasing_drop)
    show "n < n + 1" by simp
  qed
  have "mapLineToDiff (of_int n) (render d) = firstAdded (of_int n) ?ys 0"
    unfolding mapLineToDiff_def by (rule mapLoop_render [OF wf assms(2,3)])
  also have "\<dots> = firstAdded (of_int n) (take (Suc i) ?ys @ drop (Suc i) ?ys) 0"
    by simp
  also have "\<dots> = (if tg = Added then Some (i + 1) else None)"
    unfolding firstAdded_append pre found by (simp add: later)
  finally show ?thesis .
qed

theorem mapLineToDiff_present_line_witness:
  "validDiff [\<lparr>hunk_header = ''@@ -5,3 +10,4 @@'', hunk_newStart = 10,
       hunk_lines = [(Context, '' a''), (Added, ''+b''), (Removed, ''-c''), (Added, ''+d''),
         (NoNewline, CHR 0x5C # '' No newline at end of file'')]\<rparr>] \<and>
   headerFree [\<lparr>hunk_header = ''@@ -5,3 +10,4 @@'', hunk_newStart = 10,
       hunk_lines = [(Context, '' a''), (Added, ''+b''), (Removed, ''-c''), (Added, ''+d''),
         (NoNewline, CHR 0x5C # '' No newline at end of file'')]\<rparr>] \<and>
   safeIntegers [\<lparr>hunk_header = ''@@ -5,3 +10,4 @@'', hunk_newStart = 10,
       hunk_lines = [(Context, '' a''), (Added, ''+b''), (Removed, ''-c''), (Added, ''+d''),
         (NoNewline, CHR 0x5C # '' No newline at end of file'')]\<rparr>] \<and>
   mapLineToDiff 12 [''@@ -5,3 +10,4 @@'', '' a'', ''+b'', ''-c'', ''+d'',
       CHR 0x5C # '' No newline at end of file''] = Some 5 \<and>
   [''@@ -5,3 +10,4 @@'', '' a'', ''+b'', ''-c'', ''+d'',
       CHR 0x5C # '' No newline at end of file''] ! (5 - 1) = ''+d''"
proof -
  let ?d = "[\<lparr>hunk_header = ''@@ -5,3 +10,4 @@'', hunk_newStart = 10,
       hunk_lines = [(Context, '' a''), (Added, ''+b''), (Removed, ''-c''), (Added, ''+d''),
         (NoNewline, CHR 0x5C # '' No newline at end of file'')]\<rparr>]"
  have v: "validDiff ?d" by code_simp
  have f: "headerFree ?d" by code_simp
  have s: "safeIntegers ?d" by code_simp
  have l: "4 < length (render ?d)" by simp
  have a: "diffInfo ?d ! 4 = Some (Added, 12)" by simp
  have b: "list_all (\<lambda>l. \<not> backslashed l) (take 4 (render ?d))" by code_simp
  from mapLineToDiff_present_line [OF v f s l a b] v f s show ?thesis by simp
qed

text \<open>
  The claim as stated fails on a context line: in the diff of the header
  \<open>@@ -1,2 +1,2 @@\<close> followed by a context, a removed and an added line, line 1 of the new
  file is the context line, and the mapper returns none for it.
\<close>

theorem mapLineToDiff_context_counterexample:
  "validDiff [\<lparr>hunk_header = ''@@ -1,2 +1,2 @@'', hunk_newStart = 1,
       hunk_lines = [(Context, '' a''), (Removed, ''-b''), (Added, ''+c'')]\<rparr>] \<and>
   diffInfo [\<lparr>hunk_header = ''@@ -1,2 +1,2 @@'', hunk_newStart = 1,
       hunk_lines = [(Context, '' a''), (Removed, ''-b''), (Added, ''+c'')]\<rparr>] ! 1 = Some (Context, 1) \<and>
   render [\<lparr>hunk_header = ''@@ -1,2 +1,2 @@'', hunk_newStart = 1,
       hunk_lines = [(Context, '' a''), (Removed, ''-b''), (Added, ''+c'')]\<rparr>]
     = [''@@ -1,2 +1,2 @@'', '' a'', ''-b'', ''+c''] \<and>
   mapLineToDiff 1 [''@@ -1,2 +1,2 @@'', '' a'', ''-b'', ''+c''] = None"
  by code_simp

text \<open>
  The two bounds of the theorem are needed. Beyond \<open>2^53\<close> the counter of the program no
  longer grows by one: in a hunk that starts at line \<open>2^53 - 1\<close> the first two added lines
  are found, and the third and the fourth, the lines \<open>2^53 + 1\<close> and \<open>2^53 + 2\<close> of the new
  file, are not.
\<close>

lemma counter_stalls_example:
  "map (\<lambda>t. mapLineToDiff t [''@@ -1 +9007199254740991,4 @@'', ''+a'', ''+b'', ''+c'', ''+d''])
     [9007199254740991, 9007199254740992, 9007199254740993, 9007199254740994]
   = [Some 2, Some 3, None, None]"
  by code_simp

text \<open>
  And the program counts a marker as a line of the new file: after the marker in the
  middle of the hunk below, the added lines \<open>+c\<close> and \<open>+d\<close>, the lines 2 and 3 of the new
  file, are found under the numbers 3 and 4.
\<close>

lemma marker_counted_example:
  "diffInfo [\<lparr>hunk_header = ''@@ -1,2 +1,3 @@'', hunk_newStart = 1,
       hunk_lines = [(Context, '' a''), (Removed, ''-b''),
         (NoNewline, CHR 0x5C # '' No newline at end of file''),
         (Added, ''+c''), (Added, ''+d''),
         (NoNewline, CHR 0x5C # '' No newline at end of file'')]\<rparr>]
     = [None, Some (Context, 1), None, None, Some (Added, 2), Some (Added, 3), None] \<and>
   map (\<lambda>t. mapLineToDiff t [''@@ -1,2 +1,3 @@'', '' a'', ''-b'',
       CHR 0x5C # '' No newline at end of file'', ''+c'', ''+d'',
       CHR 0x5C # '' No newline at end of file'']) [1, 2, 3, 4]
     = [None, None, Some 5, Some 6]"
  by code_simp

section \<open>Parsing the response of the engine\<close>

text \<open>
  Claim C2. For every raw text (and every decoder) \<open>parseReviewResponse\<close> returns a result
  and throws nothing; and when the decoder fails on the cleaned text, the result has no
  issues and the non-empty summary \<open>Failed to parse review response\<close>.
\<close>

theorem parseReviewResponse_total:
  "(\<exists>result. parseReviewResponse rt response fp = Inr result) \<and>
   (\<forall>e. JSON_parse rt (trim (stripFences response)) = Inl e \<longrightarrow>
      parseReviewResponse rt response fp =
        Inr \<lparr>reviews = [], summary = JStr ''Failed to parse review response''\<rparr>) \<and>
   truthy (Some (JStr ''Failed to parse review response''))"
proof (intro conjI allI impI)
  show "\<exists>result. parseReviewResponse rt response fp = Inr result"
    unfolding parseReviewResponse_def by (cases "parseReviewResponse_try rt response fp") simp_all
next
  fix e
  assume "JSON_parse rt (trim (stripFences response)) = Inl e"
  then have "parseReviewResponse_try rt response fp = Inl e"
    by (simp add: parseReviewResponse_try_def)
  then show "parseReviewResponse rt response fp =
      Inr \<lparr>reviews = [], summary = JStr ''Failed to parse review response''\<rparr>"
    by (simp add: parseReviewResponse_def)
next
  show "truthy (Some (JStr ''Failed to parse review response''))" by simp
qed

theorem parseReviewResponse_total_witness:
  "parseReviewResponse
     \<lparr>JSON_parse = (\<lambda>s. if s = ''{}'' then Inr (JObj []) else Inl SyntaxError),
      toUpperCase = (\<lambda>s. s), ToString = (\<lambda>v. Inl TypeError)\<rparr>
     ''not json'' ''a.ts'' =
   Inr \<lparr>reviews = [], summary = JStr ''Failed to parse review response''\<rparr>"
proof -
  let ?rt = "\<lparr>JSON_parse = (\<lambda>s. if s = ''{}'' then Inr (JObj []) else Inl SyntaxError),
      toUpperCase = (\<lambda>s. s), ToString = (\<lambda>v. Inl TypeError)\<rparr>"
  have c: "trim (stripFences ''not json'') = ''not json''" by code_simp
  have "JSON_parse ?rt (trim (stripFences ''not json'')) = Inl SyntaxError"
    unfolding c by simp
  with parseReviewResponse_total [of ?rt "''not json''" "''a.ts''"] show ?thesis by blast
qed

lemma validReview_keptCandidate: "c \<noteq> JNull \<Longrightarrow> validReview c = Inr (keptCandidate c)"
  by (cases c) (simp_all add: validReview_def)

lemma filterE_total:
  "\<forall>x \<in> set xs. p x = Inr (q x) \<Longrightarrow> filterE p xs = Inr (filter q xs)"
  by (induction xs) simp_all

text \<open>
  Claim C3, as the program has it. When the decoded \<open>reviews\<close> member is an array none of
  whose elements is \<open>null\<close>, the validator keeps exactly the candidates that are objects
  with a \<open>line\<close> of type number (an integer or not) and a truthy \<open>message\<close>, in their
  order, and each kept candidate is the decoded object itself, with every member as it
  was decoded.
\<close>

theorem validator_keeps_number_lines:
  assumes "JSON_parse rt (trim (stripFences response)) = Inr parsed"
    and "getProp parsed ''reviews'' = Inr (Some (JArr candidates))"
    and "JNull \<notin> set candidates"
  shows "\<exists>s. parseReviewResponse rt response fp =
           Inr \<lparr>reviews = filter keptCandidate candidates, summary = s\<rparr>"
proof -
  have "\<forall>c \<in> set candidates. validReview c = Inr (keptCandidate c)"
    using assms(3) by (auto intro: validReview_keptCandidate)
  then have f: "filterE validReview candidates = Inr (filter keptCandidate candidates)"
    by (rule filterE_total)
  from assms(2) obtain members where "parsed = JObj members"
    by (cases parsed) simp_all
  then have "\<exists>v. getProp parsed ''summary'' = Inr v" by simp
  then obtain v where "getProp parsed ''summary'' = Inr v" ..
  with assms(1,2) f show ?thesis
    by (simp add: parseReviewResponse_def parseReviewResponse_try_def)
qed

theorem validator_keeps_number_lines_witness:
  "\<exists>s. parseReviewResponse
     \<lparr>JSON_parse = (\<lambda>s. if s = ''{\"reviews\":[{\"line\":\"x\",\"message\":\"m\"},{\"line\":3,\"message\":\"\"},{\"line\":4,\"message\":\"ok\",\"suggestion\":\"y\"}]}''
         then Inr (JObj [(''reviews'', JArr
                [JObj [(''line'', JStr ''x''), (''message'', JStr ''m'')],
                 JObj [(''line'', JNum 3), (''message'', JStr [])],
                 JObj [(''line'', JNum 4), (''message'', JStr ''ok''), (''suggestion'', JStr ''y'')]])])
         else Inl SyntaxError),
      toUpperCase = (\<lambda>s. s), ToString = (\<lambda>v. Inl TypeError)\<rparr>
     ''{\"reviews\":[{\"line\":\"x\",\"message\":\"m\"},{\"line\":3,\"message\":\"\"},{\"line\":4,\"message\":\"ok\",\"suggestion\":\"y\"}]}''
     ''a.ts'' =
   Inr \<lparr>reviews = [JObj [(''line'', JNum 4), (''message'', JStr ''ok''), (''suggestion'', JStr ''y'')]],
        summary = s\<rparr>"
proof -
  let ?text = "''{\"reviews\":[{\"line\":\"x\",\"message\":\"m\"},{\"line\":3,\"message\":\"\"},{\"line\":4,\"message\":\"ok\",\"suggestion\":\"y\"}]}''"
  let ?cands = "[JObj [(''line'', JStr ''x''), (''message'', JStr ''m'')],
                 JObj [(''line'', JNum 3), (''message'', JStr [])],
                 JObj [(''line'', JNum 4), (''message'', JStr ''ok''), (''suggestion'', JStr ''y'')]]"
  let ?rt = "\<lparr>JSON_parse = (\<lambda>s. if s = ?text
         then Inr (JObj [(''reviews'', JArr ?cands)])
         else Inl SyntaxError),
      toUpperCase = (\<lambda>s. s), ToString = (\<lambda>v. Inl TypeError)\<rparr>"
  have c: "trim (stripFences ?text) = ?text" by code_simp
  have p: "JSON_parse ?rt (trim (stripFences ?text)) = Inr (JObj [(''reviews'', JArr ?cands)])"
    unfolding c by simp
  have g: "getProp (JObj [(''reviews'', JArr ?cands)]) ''reviews'' = Inr (Some (JArr ?cands))"
    by simp
  have n: "JNull \<notin> set ?cands" by simp
  from validator_keeps_number_lines [OF p g n, of "''a.ts''"] show ?thesis by simp
qed

text \<open>
  The claim as stated fails on a \<open>line\<close> that is a number but not an integer: the
  candidate with \<open>line\<close> 3.5 is kept.
\<close>

theorem validator_fraction_counterexample:
  "\<not> isInteger (7 / 2) \<and>
   parseReviewResponse
     \<lparr>JSON_parse = (\<lambda>s. if s = ''{\"reviews\":[{\"line\":3.5,\"message\":\"m\"}]}''
         then Inr (JObj [(''reviews'', JArr [JObj [(''line'', JNum (7 / 2)), (''message'', JStr ''m'')]])])
         else Inl SyntaxError),
      toUpperCase = (\<lambda>s. s), ToString = (\<lambda>v. Inl TypeError)\<rparr>
     ''{\"reviews\":[{\"line\":3.5,\"message\":\"m\"}]}'' ''a.ts'' =
   Inr \<lparr>reviews = [JObj [(''line'', JNum (7 / 2)), (''message'', JStr ''m'')]],
        summary = JStr ''Reviewed a.ts''\<rparr>"
  by code_simp

section \<open>An issue without a severity\<close>

lemma filterE_append:
  "filterE p (xs @ ys) =
     (case filterE p xs of
        Inl e \<Rightarrow> Inl e
      | Inr xs' \<Rightarrow> (case filterE p ys of Inl e \<Rightarrow> Inl e | Inr ys' \<Rightarrow> Inr (xs' @ ys')))"
  by (induction xs) (simp_all split: sum.splits)

lemma countSeverity_skip:
  assumes "getProp issue ''severity'' = Inr v" and "\<not> p v"
  shows "countSeverity p (before @ issue # after) = countSeverity p (before @ after)"
  using assms by (simp add: countSeverity_def filterE_append split: sum.splits)

lemma startsWith_append: "startsWith (p @ s) p"
  by (simp add: startsWith_def)

lemma join_starts: "join sep (x # xs) = x @ (if xs = [] then [] else sep @ join sep xs)"
  by (cases xs) simp_all

lemma joinTruthy_head:
  assumes "joinTruthy rt [Some (JStr x), Some (JStr []), msg] = Inr b" and "x \<noteq> []"
  shows "\<exists>rest. b = x @ rest"
proof (cases "truthy msg")
  case True
  with assms show ?thesis
    by (auto simp: joinTruthy_def toStr_def split: sum.splits)
next
  case False
  with assms show ?thesis
    by (simp add: joinTruthy_def toStr_def)
qed

lemma commentBody_prefix:
  assumes "getProp issue ''severity'' = Inr v" and "commentBody rt issue = Inr b"
  shows "startsWith b (getSeverityEmoji v @ '' '')"
proof -
  from assms obtain cat where c: "getProp issue ''category'' = Inr cat"
    by (cases "getProp issue ''category''") (simp_all add: commentBody_def)
  from assms c obtain lbl where l: "categoryLabel rt cat = Inr lbl"
    by (cases "categoryLabel rt cat") (simp_all add: commentBody_def)
  from assms c l obtain msg where m: "getProp issue ''message'' = Inr msg"
    by (cases "getProp issue ''message''") (simp_all add: commentBody_def)
  from assms c l m
  have "joinTruthy rt [Some (JStr (getSeverityEmoji v @ '' '' @ lbl)), Some (JStr []), msg] = Inr b"
    by (simp add: commentBody_def)
  then obtain rest where "b = (getSeverityEmoji v @ '' '' @ lbl) @ rest"
    using joinTruthy_head by blast
  then have "b = (getSeverityEmoji v @ '' '') @ (lbl @ rest)" by simp
  then show ?thesis
    using startsWith_append by metis
qed

lemma startsWith_take:
  assumes "startsWith b p" and "n \<le> length p"
  shows "take n b = take n p"
proof -
  from assms(1) have "take n (take (length p) b) = take n p"
    by (simp add: startsWith_def)
  with assms(2) show ?thesis by (simp add: min_def)
qed

lemma default_not_info:
  assumes "startsWith b (marker_default @ '' '')"
  shows "\<not> startsWith b marker_info"
proof
  assume i: "startsWith b marker_info"
  have "take 2 b = take 2 (marker_default @ '' '')"
    using assms by (rule startsWith_take) (simp add: marker_default_def)
  moreover have "take 2 b = take 2 marker_info"
    using i by (rule startsWith_take) (simp add: marker_info_def)
  ultimately show False
    by (simp add: marker_default_def marker_info_def)
qed

text \<open>
  Claim C4, as the program has it. No severity is assigned to an issue that passes the
  filter and has no \<open>severity\<close> member: wherever it stands in the list of issues, it adds
  nothing to any of the three tallies, and the body of its comment starts with the
  marker of the default case of \<open>getSeverityEmoji\<close>, not with the marker of \<open>info\<close>.
\<close>

theorem absent_severity_default_marker:
  assumes "validReview issue = Inr True" and "getProp issue ''severity'' = Inr None"
  shows "countSeverity (\<lambda>v. v = Some (JStr ''critical'')) (before @ issue # after) =
           countSeverity (\<lambda>v. v = Some (JStr ''critical'')) (before @ after) \<and>
         countSeverity (\<lambda>v. v = Some (JStr ''warning'')) (before @ issue # after) =
           countSeverity (\<lambda>v. v = Some (JStr ''warning'')) (before @ after) \<and>
         countSeverity (\<lambda>v. v = Some (JStr ''suggestion'') \<or> v = Some (JStr ''info''))
             (before @ issue # after) =
           countSeverity (\<lambda>v. v = Some (JStr ''suggestion'') \<or> v = Some (JStr ''info''))
             (before @ after) \<and>
         (\<forall>b. commentBody rt issue = Inr b \<longrightarrow>
            startsWith b (marker_default @ '' '') \<and> \<not> startsWith b marker_info)"
proof (intro conjI allI impI)
  fix b
  assume "commentBody rt issue = Inr b"
  from commentBody_prefix [OF assms(2) this]
  show p: "startsWith b (marker_default @ '' '')"
    by (simp add: getSeverityEmoji_def)
  then show "\<not> startsWith b marker_info"
    by (rule default_not_info)
qed (simp_all add: countSeverity_skip [OF assms(2)])

theorem absent_severity_default_marker_witness:
  "countSeverity (\<lambda>v. v = Some (JStr ''suggestion'') \<or> v = Some (JStr ''info''))
     ([JObj [(''line'', JNum 1), (''severity'', JStr ''info''), (''message'', JStr ''n'')]] @
      JObj [(''line'', JNum 2), (''message'', JStr ''m'')] # []) = Inr 1 \<and>
   commentBody (sampleRuntime []) (JObj [(''line'', JNum 2), (''message'', JStr ''m'')]) =
     Inr (marker_default @ '' \<newline>m'') \<and>
   startsWith (marker_default @ '' \<newline>m'') (marker_default @ '' '') \<and>
   \<not> startsWith (marker_default @ '' \<newline>m'') marker_info"
proof -
  let ?issue = "JObj [(''line'', JNum 2), (''message'', JStr ''m'')]"
  let ?before = "[JObj [(''line'', JNum 1), (''severity'', JStr ''info''), (''message'', JStr ''n'')]]"
  have v: "validReview ?issue = Inr True" by code_simp
  have s: "getProp ?issue ''severity'' = Inr None" by simp
  note T = absent_severity_default_marker [OF v s, of ?before "[]" "sampleRuntime []"]
  have c: "countSeverity (\<lambda>v. v = Some (JStr ''suggestion'') \<or> v = Some (JStr ''info''))
             (?before @ []) = Inr 1"
    by code_simp
  have b: "commentBody (sampleRuntime []) ?issue = Inr (marker_default @ '' \<newline>m'')"
    by code_simp
  from T c b show ?thesis by simp
qed

text \<open>
  The claim as stated fails on the issue \<open>{line: 2, message: "m"}\<close>: the review of its
  file counts it in no bucket (\<open>suggestionCount\<close> is 0), and its comment carries the
  default marker.
\<close>

theorem absent_severity_counterexample:
  "reviewFile
     (sampleRuntime [(''{\"reviews\":[{\"line\":2,\"message\":\"m\"}]}'',
        JObj [(''reviews'', JArr [JObj [(''line'', JNum 2), (''message'', JStr ''m'')]])])])
     (sampleServices [sampleFile ''a.ts''] (\<lambda>p. Inr (Some ''{\"reviews\":[{\"line\":2,\"message\":\"m\"}]}'')))
     (sampleConfig 50) (sampleFile ''a.ts'') (Some ''Change'') None =
   ([Call_reviewCode ''a.ts'' ''@@ -1 +1,2 @@\<newline> a\<newline>+b'' ''Review.'' (Some ''Change'') None],
    Inr \<lparr>comments = [\<lparr>path = ''a.ts'', line = 3, body = marker_default @ '' \<newline>m'', side = ''RIGHT''\<rparr>],
         summary = JStr ''Reviewed a.ts'', criticalCount = 0, warningCount = 0, suggestionCount = 0\<rparr>) \<and>
   \<not> startsWith (marker_default @ '' \<newline>m'') marker_info"
  by code_simp

section \<open>The suggestion of an issue and the comment built from it\<close>

lemma map_of_without:
  "k \<noteq> s \<Longrightarrow> map_of (filter (\<lambda>m. fst m \<noteq> s) members) k = map_of members k"
  by (induction members) auto

lemma getProp_withoutSuggestion:
  "k \<noteq> ''suggestion'' \<Longrightarrow> getProp (withoutSuggestion a) k = getProp a k"
  by (cases a) (simp_all add: map_of_without)

lemma getProp_same:
  assumes "withoutSuggestion a = withoutSuggestion b" and "k \<noteq> ''suggestion''"
  shows "getProp a k = getProp b k"
  using assms getProp_withoutSuggestion by metis

lemma commentBody_same:
  assumes "withoutSuggestion a = withoutSuggestion b"
  shows "commentBody rt a = commentBody rt b"
proof -
  have "getProp a ''severity'' = getProp b ''severity''"
    "getProp a ''category'' = getProp b ''category''"
    "getProp a ''message'' = getProp b ''message''"
    using assms by (auto intro: getProp_same)
  then show ?thesis unfolding commentBody_def by (simp only:)
qed

lemma commentLoop_same:
  assumes "map withoutSuggestion issues1 = map withoutSuggestion issues2"
  shows "commentLoop rt fp patchLines issues1 acc = commentLoop rt fp patchLines issues2 acc"
  using assms
proof (induction issues1 arbitrary: issues2 acc)
  case Nil
  then show ?case by simp
next
  case (Cons a rest1)
  then obtain b rest2 where i2: "issues2 = b # rest2"
    and ab: "withoutSuggestion a = withoutSuggestion b"
    and rest: "map withoutSuggestion rest1 = map withoutSuggestion rest2"
    by (cases issues2) auto
  have l: "getProp a ''line'' = getProp b ''line''"
    using ab by (auto intro: getProp_same)
  have c: "commentBody rt a = commentBody rt b"
    using ab by (rule commentBody_same)
  show ?case
    unfolding i2 by (simp add: l c Cons.IH [OF rest] split: sum.splits option.splits)
qed

text \<open>
  Claim C9. Two lists of issues that agree once the \<open>suggestion\<close> member of every issue
  is taken away give the same result of \<open>createReviewComments\<close>: the same comments with the
  same bodies, character for character, or the same exception. So no comment body
  depends on a suggestion.
\<close>

theorem comment_body_ignores_suggestion:
  assumes "map withoutSuggestion issues1 = map withoutSuggestion issues2"
  shows "createReviewComments rt fp issues1 patchText =
         createReviewComments rt fp issues2 patchText"
  unfolding createReviewComments_def using assms by (rule commentLoop_same)

theorem comment_body_ignores_suggestion_witness:
  "createReviewComments (sampleRuntime []) ''a.ts''
     [JObj [(''line'', JNum 2), (''severity'', JStr ''warning''), (''category'', JStr ''style''),
            (''message'', JStr ''m''), (''suggestion'', JStr ''x = 1'')]]
     ''@@ -1 +1,2 @@\<newline> a\<newline>+b'' =
   createReviewComments (sampleRuntime []) ''a.ts''
     [JObj [(''line'', JNum 2), (''severity'', JStr ''warning''), (''category'', JStr ''style''),
            (''message'', JStr ''m'')]]
     ''@@ -1 +1,2 @@\<newline> a\<newline>+b'' \<and>
   createReviewComments (sampleRuntime []) ''a.ts''
     [JObj [(''line'', JNum 2), (''severity'', JStr ''warning''), (''category'', JStr ''style''),
            (''message'', JStr ''m'')]]
     ''@@ -1 +1,2 @@\<newline> a\<newline>+b'' =
   Inr [\<lparr>path = ''a.ts'', line = 3, body = marker_warning @ '' **STYLE**\<newline>m'', side = ''RIGHT''\<rparr>]"
proof
  show "createReviewComments (sampleRuntime []) ''a.ts''
     [JObj [(''line'', JNum 2), (''severity'', JStr ''warning''), (''category'', JStr ''style''),
            (''message'', JStr ''m''), (''suggestion'', JStr ''x = 1'')]]
     ''@@ -1 +1,2 @@\<newline> a\<newline>+b'' =
   createReviewComments (sampleRuntime []) ''a.ts''
     [JObj [(''line'', JNum 2), (''severity'', JStr ''warning''), (''category'', JStr ''style''),
            (''message'', JStr ''m'')]]
     ''@@ -1 +1,2 @@\<newline> a\<newline>+b''"
    by (rule comment_body_ignores_suggestion) simp
  show "createReviewComments (sampleRuntime []) ''a.ts''
     [JObj [(''line'', JNum 2), (''severity'', JStr ''warning''), (''category'', JStr ''style''),
            (''message'', JStr ''m'')]]
     ''@@ -1 +1,2 @@\<newline> a\<newline>+b'' =
   Inr [\<lparr>path = ''a.ts'', line = 3, body = marker_warning @ '' **STYLE**\<newline>m'', side = ''RIGHT''\<rparr>]"
    by code_simp
qed

section \<open>The run of the orchestrator\<close>

lemma reviewFile_calls:
  "fst (reviewFile rt env config file t d) =
     [Call_reviewCode (filename file) (patchOrEmpty file) (prompt config) t d]"
  by (simp add: reviewFile_def)

lemma reviewLoop_state:
  "reviewLoop rt env config pr files (calls, cs, frs) =
     (calls @ map (reviewCallOf config pr) (filter (\<lambda>f. \<not> skipped f) files),
      cs @ concat (map (\<lambda>fr. comments (snd fr)) (completed rt env config pr files)),
      frs @ map toFileResult (completed rt env config pr files))"
proof (induction files arbitrary: calls cs frs)
  case Nil
  then show ?case by simp
next
  case (Cons f rest)
  show ?case
  proof (cases "skipped f")
    case True
    then show ?thesis
      using Cons.IH by (simp add: skipped_def)
  next
    case False
    obtain made res where rf: "reviewFile rt env config f (Some (title pr))
        (orUndefined (PRDetails.body pr)) = (made, res)"
      by (cases "reviewFile rt env config f (Some (title pr)) (orUndefined (PRDetails.body pr))")
    have made: "made = [reviewCallOf config pr f]"
      using reviewFile_calls [of rt env config f "Some (title pr)" "orUndefined (PRDetails.body pr)"] rf
      by (simp add: reviewCallOf_def)
    have res: "reviewOf rt env config pr f = res"
      using rf by (simp add: reviewOf_def)
    show ?thesis
    proof (cases res)
      case (Inl e)
      with False rf made res show ?thesis
        using Cons.IH by (simp add: skipped_def)
    next
      case (Inr r)
      with False rf made res show ?thesis
        using Cons.IH by (simp add: skipped_def toFileResult_def)
    qed
  qed
qed

lemma foldl_plus: "foldl (\<lambda>sum r. sum + g r) (a :: nat) xs = a + sum_list (map g xs)"
  by (induction xs arbitrary: a) simp_all

lemma postReview_calls:
  "list_all (\<lambda>c. \<not> isReviewCall c) (fst (postReview env config cs frs overall a b c))"
  by (simp add: postReview_def Let_def split: sum.splits)

lemma runReview_after_loop:
  assumes pr: "getPRDetails env = Inr pr"
    and files: "getChangedFiles env (excludePatterns config) = Inr files"
    and ne: "files \<noteq> []"
  shows "\<exists>posted.
      fst (runReview rt env config) =
        [Call_getPRDetails, Call_getChangedFiles (excludePatterns config)] @
        map (reviewCallOf config pr) (filter (\<lambda>f. \<not> skipped f) (limited config files)) @
        [Call_generateSummary (perFileOf (completed rt env config pr (limited config files)))
           (prompt config)] @ posted \<and>
      list_all (\<lambda>c. \<not> isReviewCall c) posted"
    and "snd (runReview rt env config) = Inr s \<Longrightarrow>
      totalFiles s = length files \<and>
      filesReviewed s = length (completed rt env config pr (limited config files)) \<and>
      totalComments s =
        sum_list (map (\<lambda>fr. length (comments (snd fr))) (completed rt env config pr (limited config files))) \<and>
      criticalIssues s =
        sum_list (map (\<lambda>fr. FileReview.criticalCount (snd fr)) (completed rt env config pr (limited config files))) \<and>
      warnings s =
        sum_list (map (\<lambda>fr. FileReview.warningCount (snd fr)) (completed rt env config pr (limited config files))) \<and>
      suggestions s =
        sum_list (map (\<lambda>fr. FileReview.suggestionCount (snd fr)) (completed rt env config pr (limited config files)))"
proof -
  let ?done = "completed rt env config pr (limited config files)"
  let ?c0 = "[Call_getPRDetails, Call_getChangedFiles (excludePatterns config)]"
  let ?frs = "map toFileResult ?done"
  let ?cs = "concat (map (\<lambda>fr. comments (snd fr)) ?done)"
  have loop: "reviewLoop rt env config pr (limited config files) (?c0, [], []) =
      (?c0 @ map (reviewCallOf config pr) (filter (\<lambda>f. \<not> skipped f) (limited config files)), ?cs, ?frs)"
    by (simp add: reviewLoop_state)
  have per: "map (\<lambda>r. (filePath r, FileResult.summary r, issueCount r)) ?frs = perFileOf ?done"
    by (simp add: perFileOf_def toFileResult_def)
  have sums: "foldl (\<lambda>sum r. sum + FileResult.criticalCount r) 0 ?frs =
        sum_list (map (\<lambda>fr. FileReview.criticalCount (snd fr)) ?done)"
      "foldl (\<lambda>sum r. sum + FileResult.warningCount r) 0 ?frs =
        sum_list (map (\<lambda>fr. FileReview.warningCount (snd fr)) ?done)"
      "foldl (\<lambda>sum r. sum + FileResult.suggestionCount r) 0 ?frs =
        sum_list (map (\<lambda>fr. FileReview.suggestionCount (snd fr)) ?done)"
    by (simp_all add: foldl_plus toFileResult_def comp_def)
  have len: "length ?cs = sum_list (map (\<lambda>fr. length (comments (snd fr))) ?done)"
    by (simp add: length_concat comp_def)
  have run: "runReview rt env config =
      (case generateSummary rt env (perFileOf ?done) (prompt config) of
         Inl e \<Rightarrow>
           (?c0 @ map (reviewCallOf config pr) (filter (\<lambda>f. \<not> skipped f) (limited config files)) @
              [Call_generateSummary (perFileOf ?done) (prompt config)], Inl e)
       | Inr overall \<Rightarrow>
           (?c0 @ map (reviewCallOf config pr) (filter (\<lambda>f. \<not> skipped f) (limited config files)) @
              [Call_generateSummary (perFileOf ?done) (prompt config)] @
              fst (postReview env config ?cs ?frs overall
                     (sum_list (map (\<lambda>fr. FileReview.criticalCount (snd fr)) ?done))
                     (sum_list (map (\<lambda>fr. FileReview.warningCount (snd fr)) ?done))
                     (sum_list (map (\<lambda>fr. FileReview.suggestionCount (snd fr)) ?done))),
            case snd (postReview env config ?cs ?frs overall
                     (sum_list (map (\<lambda>fr. FileReview.criticalCount (snd fr)) ?done))
                     (sum_list (map (\<lambda>fr. FileReview.warningCount (snd fr)) ?done))
                     (sum_list (map (\<lambda>fr. FileReview.suggestionCount (snd fr)) ?done))) of
              Inl e \<Rightarrow> Inl e
            | Inr u \<Rightarrow>
                Inr \<lparr>totalFiles = length files, filesReviewed = length ?done,
                     totalComments = sum_list (map (\<lambda>fr. length (comments (snd fr))) ?done),
                     criticalIssues = sum_list (map (\<lambda>fr. FileReview.criticalCount (snd fr)) ?done),
                     warnings = sum_list (map (\<lambda>fr. FileReview.warningCount (snd fr)) ?done),
                     suggestions = sum_list (map (\<lambda>fr. FileReview.suggestionCount (snd fr)) ?done),
                     summary = overall\<rparr>))"
    using ne
    unfolding runReview_def pr files limited_def [symmetric]
    by (simp add: loop Let_def perFileOf_def toFileResult_def comp_def foldl_plus length_concat
        split: sum.splits prod.splits)
  show "\<exists>posted.
      fst (runReview rt env config) =
        ?c0 @ map (reviewCallOf config pr) (filter (\<lambda>f. \<not> skipped f) (limited config files)) @
        [Call_generateSummary (perFileOf ?done) (prompt config)] @ posted \<and>
      list_all (\<lambda>c. \<not> isReviewCall c) posted"
    unfolding run using postReview_calls
    by (cases "generateSummary rt env (perFileOf ?done) (prompt config)") auto
  show "snd (runReview rt env config) = Inr s \<Longrightarrow>
      totalFiles s = length files \<and>
      filesReviewed s = length ?done \<and>
      totalComments s = sum_list (map (\<lambda>fr. length (comments (snd fr))) ?done) \<and>
      criticalIssues s = sum_list (map (\<lambda>fr. FileReview.criticalCount (snd fr)) ?done) \<and>
      warnings s = sum_list (map (\<lambda>fr. FileReview.warningCount (snd fr)) ?done) \<and>
      suggestions s = sum_list (map (\<lambda>fr. FileReview.suggestionCount (snd fr)) ?done)"
    unfolding run
    by (auto split: sum.splits)
qed

text \<open>
  Claim C7. When \<open>getChangedFiles\<close> returns the empty list, \<open>runReview\<close> returns exactly the
  report with all counts 0 and the summary \<open>No files to review\<close>, and the calls it has made
  are \<open>getPRDetails\<close> and \<open>getChangedFiles\<close> only: none to the engine, none that posts.
\<close>

theorem empty_run:
  assumes "getPRDetails env = Inr pr"
    and "getChangedFiles env (excludePatterns config) = Inr []"
  shows "runReview rt env config =
     ([Call_getPRDetails, Call_getChangedFiles (excludePatterns config)],
      Inr \<lparr>totalFiles = 0, filesReviewed = 0, totalComments = 0, criticalIssues = 0,
           warnings = 0, suggestions = 0, summary = ''No files to review''\<rparr>)"
  using assms by (simp add: runReview_def)

theorem empty_run_witness:
  "runReview (sampleRuntime []) (sampleServices [] (\<lambda>p. Inr None)) (sampleConfig 50) =
     ([Call_getPRDetails, Call_getChangedFiles [''*.lock'']],
      Inr \<lparr>totalFiles = 0, filesReviewed = 0, totalComments = 0, criticalIssues = 0,
           warnings = 0, suggestions = 0, summary = ''No files to review''\<rparr>)"
  using empty_run [of "sampleServices [] (\<lambda>p. Inr None)" "\<lparr>title = ''Change'', body = None\<rparr>"
      "sampleConfig 50" "sampleRuntime []"]
  by (simp add: sampleServices_def sampleConfig_def)

lemma filter_reviewCalls:
  "filter isReviewCall (map (reviewCallOf config pr) xs) = map (reviewCallOf config pr) xs"
  by (induction xs) (simp_all add: reviewCallOf_def)

lemma filter_none: "list_all (\<lambda>c. \<not> p c) xs \<Longrightarrow> filter p xs = []"
  by (induction xs) simp_all

text \<open>
  Claim C8. With \<open>maxFiles = M > 0\<close> and more than \<open>M\<close> changed files, the calls to
  \<open>reviewCode\<close> of the run are exactly those for the first \<open>M\<close> files in fetch order (less
  the files passed over as removed or without patch), the per-file results handed to
  \<open>generateSummary\<close> are those of the first \<open>M\<close> files only, and a report that is returned
  has \<open>totalFiles\<close> equal to the number of files before the limit and \<open>filesReviewed\<close> equal
  to the number of those first \<open>M\<close> files that completed review.
\<close>

theorem file_limit:
  assumes pr: "getPRDetails env = Inr pr"
    and files: "getChangedFiles env (excludePatterns config) = Inr files"
    and pos: "0 < maxFiles config" and more: "nat (maxFiles config) < length files"
  shows "filter isReviewCall (fst (runReview rt env config)) =
           map (reviewCallOf config pr)
             (filter (\<lambda>f. \<not> skipped f) (take (nat (maxFiles config)) files)) \<and>
         Call_generateSummary
             (perFileOf (completed rt env config pr (take (nat (maxFiles config)) files)))
             (prompt config) \<in> set (fst (runReview rt env config)) \<and>
         (\<forall>s. snd (runReview rt env config) = Inr s \<longrightarrow>
            totalFiles s = length files \<and>
            filesReviewed s =
              length (completed rt env config pr (take (nat (maxFiles config)) files)))"
proof -
  from more have ne: "files \<noteq> []" by auto
  from pos have lim: "limited config files = take (nat (maxFiles config)) files"
    by (simp add: limited_def)
  from runReview_after_loop(1) [OF pr files ne, of rt] obtain posted where
    tr: "fst (runReview rt env config) =
        [Call_getPRDetails, Call_getChangedFiles (excludePatterns config)] @
        map (reviewCallOf config pr) (filter (\<lambda>f. \<not> skipped f) (limited config files)) @
        [Call_generateSummary (perFileOf (completed rt env config pr (limited config files)))
           (prompt config)] @ posted"
    and np: "list_all (\<lambda>c. \<not> isReviewCall c) posted"
    by blast
  have "filter isReviewCall (fst (runReview rt env config)) =
      map (reviewCallOf config pr) (filter (\<lambda>f. \<not> skipped f) (limited config files))"
    unfolding tr by (simp add: filter_reviewCalls filter_none [OF np])
  moreover have "Call_generateSummary
             (perFileOf (completed rt env config pr (limited config files)))
             (prompt config) \<in> set (fst (runReview rt env config))"
    unfolding tr by simp
  moreover have "\<forall>s. snd (runReview rt env config) = Inr s \<longrightarrow>
            totalFiles s = length files \<and>
            filesReviewed s = length (completed rt env config pr (limited config files))"
    using runReview_after_loop(2) [OF pr files ne] by blast
  ultimately show ?thesis unfolding lim by blast
qed

theorem file_limit_witness:
  "filter isReviewCall
     (fst (runReview (sampleRuntime [(sampleAnswer, sampleDecoded)])
        (sampleServices
           [sampleFile ''a.ts'', sampleFile ''b.ts'', sampleFile ''c.ts'', sampleFile ''d.ts'',
            sampleFile ''e.ts'']
           (\<lambda>p. Inr (Some sampleAnswer)))
        (sampleConfig 2))) =
     [Call_reviewCode ''a.ts'' ''@@ -1 +1,2 @@\<newline> a\<newline>+b'' ''Review.'' (Some ''Change'') None,
      Call_reviewCode ''b.ts'' ''@@ -1 +1,2 @@\<newline> a\<newline>+b'' ''Review.'' (Some ''Change'') None] \<and>
   snd (runReview (sampleRuntime [(sampleAnswer, sampleDecoded)])
        (sampleServices
           [sampleFile ''a.ts'', sampleFile ''b.ts'', sampleFile ''c.ts'', sampleFile ''d.ts'',
            sampleFile ''e.ts'']
           (\<lambda>p. Inr (Some sampleAnswer)))
        (sampleConfig 2)) =
     Inr \<lparr>totalFiles = 5, filesReviewed = 2, totalComments = 2, criticalIssues = 2,
          warnings = 2, suggestions = 0, summary = ''Fine.''\<rparr>"
proof -
  let ?files = "[sampleFile ''a.ts'', sampleFile ''b.ts'', sampleFile ''c.ts'', sampleFile ''d.ts'',
            sampleFile ''e.ts'']"
  let ?env = "sampleServices ?files (\<lambda>p. Inr (Some sampleAnswer))"
  let ?rt = "sampleRuntime [(sampleAnswer, sampleDecoded)]"
  let ?pr = "\<lparr>title = ''Change'', body = None\<rparr>"
  have pr: "getPRDetails ?env = Inr ?pr" by (simp add: sampleServices_def)
  have files: "getChangedFiles ?env (excludePatterns (sampleConfig 2)) = Inr ?files"
    by (simp add: sampleServices_def)
  have pos: "0 < maxFiles (sampleConfig 2)" by (simp add: sampleConfig_def)
  have more: "nat (maxFiles (sampleConfig 2)) < length ?files" by (simp add: sampleConfig_def)
  note T = file_limit [OF pr files pos more, of ?rt]
  have calls: "map (reviewCallOf (sampleConfig 2) ?pr)
      (filter (\<lambda>f. \<not> skipped f) (take (nat (maxFiles (sampleConfig 2))) ?files)) =
     [Call_reviewCode ''a.ts'' ''@@ -1 +1,2 @@\<newline> a\<newline>+b'' ''Review.'' (Some ''Change'') None,
      Call_reviewCode ''b.ts'' ''@@ -1 +1,2 @@\<newline> a\<newline>+b'' ''Review.'' (Some ''Change'') None]"
    by code_simp
  have res: "snd (runReview ?rt ?env (sampleConfig 2)) =
     Inr \<lparr>totalFiles = 5, filesReviewed = 2, totalComments = 2, criticalIssues = 2,
          warnings = 2, suggestions = 0, summary = ''Fine.''\<rparr>"
    by code_simp
  from T calls res show ?thesis by simp
qed





lemma filterE_Inr:
  "filterE q xs = Inr ys \<Longrightarrow> ys = filter (\<lambda>x. q x = Inr True) xs"
proof (induction xs arbitrary: ys)
  case Nil
  then show ?case by simp
next
  case (Cons x xs)
  then show ?case by (auto split: sum.splits if_splits)
qed

lemma countSeverity_length:
  assumes "countSeverity p rs = Inr n"
  shows "n = length (filter (\<lambda>r. p (field r ''severity'')) rs)"
proof -
  let ?q = "\<lambda>r. case getProp r ''severity'' of Inl e \<Rightarrow> Inl e | Inr v \<Rightarrow> Inr (p v)"
  from assms obtain kept where k: "filterE ?q rs = Inr kept" and n: "n = length kept"
    by (auto simp: countSeverity_def split: sum.splits)
  have "(?q r = Inr True) = p (field r ''severity'')" if "\<exists>b. ?q r = Inr b" for r
    using that by (auto simp: field_def split: sum.splits)
  moreover have "\<forall>r \<in> set rs. \<exists>b. ?q r = Inr b"
    using k by (induction rs arbitrary: kept) (auto split: sum.splits)
  ultimately have "filter (\<lambda>r. ?q r = Inr True) rs = filter (\<lambda>r. p (field r ''severity'')) rs"
    by (intro filter_cong) auto
  with filterE_Inr [OF k] n show ?thesis by simp
qed

lemma commentLoop_length:
  "commentLoop rt fp patchLines issues acc = Inr cs \<Longrightarrow>
   length cs =
     length acc + length (filter (\<lambda>i. mapIssueLine (field i ''line'') patchLines \<noteq> None) issues)"
proof (induction issues arbitrary: acc)
  case Nil
  then show ?case by simp
next
  case (Cons i rest)
  from Cons.prems obtain v where g: "getProp i ''line'' = Inr v"
    by (cases "getProp i ''line''") simp_all
  then have f: "field i ''line'' = v" by (simp add: field_def)
  show ?case
  proof (cases "mapIssueLine v patchLines")
    case None
    with Cons g f show ?thesis by simp
  next
    case (Some n)
    with Cons.prems g obtain b where "commentBody rt i = Inr b"
      by (cases "commentBody rt i") simp_all
    with Cons Some g f show ?thesis by simp
  qed
qed

lemma severityIn_one:
  "severityIn [l] = (\<lambda>r. field r ''severity'' = Some (JStr l))"
  by (auto simp: severityIn_def fun_eq_iff)

lemma severityIn_two:
  "severityIn [l1, l2] =
     (\<lambda>r. field r ''severity'' = Some (JStr l1) \<or> field r ''severity'' = Some (JStr l2))"
  by (auto simp: severityIn_def fun_eq_iff)

lemma mappable_fun:
  "mappable p = (\<lambda>i. mapIssueLine (field i ''line'') (split_lines p) \<noteq> None)"
  by (simp add: mappable_def fun_eq_iff)

lemma reviewOf_counts:
  assumes "reviewOf rt env config pr f = Inr r"
  shows "FileReview.criticalCount r =
           length (filter (severityIn [''critical'']) (validatedOf rt env config pr f))"
    and "FileReview.warningCount r =
           length (filter (severityIn [''warning'']) (validatedOf rt env config pr f))"
    and "FileReview.suggestionCount r =
           length (filter (severityIn [''suggestion'', ''info'']) (validatedOf rt env config pr f))"
    and "length (comments r) =
           length (filter (mappable (patchOrEmpty f)) (validatedOf rt env config pr f))"
proof -
  from assms obtain result where
    rc: "reviewCode rt env (filename f) (patchOrEmpty f) (prompt config) (Some (title pr))
           (orUndefined (PRDetails.body pr)) = Inr result"
    by (cases "reviewCode rt env (filename f) (patchOrEmpty f) (prompt config) (Some (title pr))
           (orUndefined (PRDetails.body pr))")
       (simp_all add: reviewOf_def reviewFile_def)
  then have v: "validatedOf rt env config pr f = reviews result"
    by (simp add: validatedOf_def)
  from assms rc obtain cs where
    cc: "createReviewComments rt (filename f) (reviews result) (patchOrEmpty f) = Inr cs"
    by (cases "createReviewComments rt (filename f) (reviews result) (patchOrEmpty f)")
       (simp_all add: reviewOf_def reviewFile_def)
  from assms rc cc obtain n1 where
    c1: "countSeverity (\<lambda>v. v = Some (JStr ''critical'')) (reviews result) = Inr n1"
    by (cases "countSeverity (\<lambda>v. v = Some (JStr ''critical'')) (reviews result)")
       (simp_all add: reviewOf_def reviewFile_def)
  from assms rc cc c1 obtain n2 where
    c2: "countSeverity (\<lambda>v. v = Some (JStr ''warning'')) (reviews result) = Inr n2"
    by (cases "countSeverity (\<lambda>v. v = Some (JStr ''warning'')) (reviews result)")
       (simp_all add: reviewOf_def reviewFile_def)
  from assms rc cc c1 c2 obtain n3 where
    c3: "countSeverity (\<lambda>v. v = Some (JStr ''suggestion'') \<or> v = Some (JStr ''info''))
           (reviews result) = Inr n3"
    by (cases "countSeverity (\<lambda>v. v = Some (JStr ''suggestion'') \<or> v = Some (JStr ''info''))
           (reviews result)")
       (simp_all add: reviewOf_def reviewFile_def)
  from assms rc cc c1 c2 c3 have r: "r = \<lparr>comments = cs, summary = ReviewResult.summary result,
      criticalCount = n1, warningCount = n2, suggestionCount = n3\<rparr>"
    by (simp add: reviewOf_def reviewFile_def)
  show "FileReview.criticalCount r =
           length (filter (severityIn [''critical'']) (validatedOf rt env config pr f))"
    using countSeverity_length [OF c1] by (simp add: r v severityIn_one)
  show "FileReview.warningCount r =
           length (filter (severityIn [''warning'']) (validatedOf rt env config pr f))"
    using countSeverity_length [OF c2] by (simp add: r v severityIn_one)
  show "FileReview.suggestionCount r =
           length (filter (severityIn [''suggestion'', ''info'']) (validatedOf rt env config pr f))"
    using countSeverity_length [OF c3] by (simp add: r v severityIn_two)
  show "length (comments r) =
           length (filter (mappable (patchOrEmpty f)) (validatedOf rt env config pr f))"
    using commentLoop_length [OF cc [unfolded createReviewComments_def]]
    by (simp add: r v mappable_fun)
qed

lemma completed_reviewOf:
  "fr \<in> set (completed rt env config pr files) \<Longrightarrow>
   reviewOf rt env config pr (fst fr) = Inr (snd fr)"
  by (induction files) (auto split: if_splits sum.splits)

lemma sum_list_completed:
  assumes "\<And>f r. reviewOf rt env config pr f = Inr r \<Longrightarrow> g r = h f"
  shows "sum_list (map (\<lambda>fr. g (snd fr)) (completed rt env config pr files)) =
         sum_list (map (\<lambda>fr. h (fst fr)) (completed rt env config pr files))"
proof -
  have "map (\<lambda>fr. g (snd fr)) (completed rt env config pr files) =
        map (\<lambda>fr. h (fst fr)) (completed rt env config pr files)"
    by (intro map_cong refl assms completed_reviewOf)
  then show ?thesis by (rule arg_cong)
qed

text \<open>
  Claim C10. In a report that \<open>runReview\<close> returns, \<open>criticalIssues\<close>, \<open>warnings\<close> and
  \<open>suggestions\<close> are the numbers of validated issues of that severity, summed over the
  files that completed review, whether or not the line of an issue maps into the patch;
  \<open>totalComments\<close> is the number of validated issues whose line maps; the issue count
  reported for each file (to \<open>generateSummary\<close>) is the number of its issues whose line
  maps; and there is a run whose report has
  \<open>criticalIssues + warnings + suggestions > totalComments\<close>.
\<close>

theorem tallies_over_validated_issues:
  assumes pr: "getPRDetails env = Inr pr"
    and files: "getChangedFiles env (excludePatterns config) = Inr files"
    and run: "snd (runReview rt env config) = Inr s"
  shows "criticalIssues s =
           sum_list (map (\<lambda>fr. length (filter (severityIn [''critical''])
                                   (validatedOf rt env config pr (fst fr))))
                       (completed rt env config pr (limited config files))) \<and>
         warnings s =
           sum_list (map (\<lambda>fr. length (filter (severityIn [''warning''])
                                   (validatedOf rt env config pr (fst fr))))
                       (completed rt env config pr (limited config files))) \<and>
         suggestions s =
           sum_list (map (\<lambda>fr. length (filter (severityIn [''suggestion'', ''info''])
                                   (validatedOf rt env config pr (fst fr))))
                       (completed rt env config pr (limited config files))) \<and>
         totalComments s =
           sum_list (map (\<lambda>fr. length (filter (mappable (patchOrEmpty (fst fr)))
                                   (validatedOf rt env config pr (fst fr))))
                       (completed rt env config pr (limited config files))) \<and>
         (files \<noteq> [] \<longrightarrow>
            Call_generateSummary
              (map (\<lambda>fr. (filename (fst fr), FileReview.summary (snd fr),
                           length (filter (mappable (patchOrEmpty (fst fr)))
                                     (validatedOf rt env config pr (fst fr)))))
                 (completed rt env config pr (limited config files)))
              (prompt config) \<in> set (fst (runReview rt env config))) \<and>
         (\<exists>rt' env' config' s'.
            snd (runReview rt' env' config') = Inr s' \<and>
            totalComments s' < criticalIssues s' + warnings s' + suggestions s')"
proof -
  let ?done = "completed rt env config pr (limited config files)"
  have sums: "criticalIssues s = sum_list (map (\<lambda>fr. FileReview.criticalCount (snd fr)) ?done) \<and>
      warnings s = sum_list (map (\<lambda>fr. FileReview.warningCount (snd fr)) ?done) \<and>
      suggestions s = sum_list (map (\<lambda>fr. FileReview.suggestionCount (snd fr)) ?done) \<and>
      totalComments s = sum_list (map (\<lambda>fr. length (comments (snd fr))) ?done)"
  proof (cases "files = []")
    case True
    with pr files run show ?thesis
      by (auto simp: runReview_def limited_def)
  next
    case False
    from runReview_after_loop(2) [OF pr files False run] show ?thesis by simp
  qed
  have c: "sum_list (map (\<lambda>fr. FileReview.criticalCount (snd fr)) ?done) =
      sum_list (map (\<lambda>fr. length (filter (severityIn [''critical''])
                                   (validatedOf rt env config pr (fst fr)))) ?done)"
    by (rule sum_list_completed) (rule reviewOf_counts(1))
  have w: "sum_list (map (\<lambda>fr. FileReview.warningCount (snd fr)) ?done) =
      sum_list (map (\<lambda>fr. length (filter (severityIn [''warning''])
                                   (validatedOf rt env config pr (fst fr)))) ?done)"
    by (rule sum_list_completed) (rule reviewOf_counts(2))
  have g: "sum_list (map (\<lambda>fr. FileReview.suggestionCount (snd fr)) ?done) =
      sum_list (map (\<lambda>fr. length (filter (severityIn [''suggestion'', ''info''])
                                   (validatedOf rt env config pr (fst fr)))) ?done)"
    by (rule sum_list_completed) (rule reviewOf_counts(3))
  have m: "sum_list (map (\<lambda>fr. length (comments (snd fr))) ?done) =
      sum_list (map (\<lambda>fr. length (filter (mappable (patchOrEmpty (fst fr)))
                                   (validatedOf rt env config pr (fst fr)))) ?done)"
    by (rule sum_list_completed [where g = "\<lambda>r. length (comments r)"
          and h = "\<lambda>f. length (filter (mappable (patchOrEmpty f)) (validatedOf rt env config pr f))"])
       (rule reviewOf_counts(4))
  have per: "perFileOf ?done =
      map (\<lambda>fr. (filename (fst fr), FileReview.summary (snd fr),
                   length (filter (mappable (patchOrEmpty (fst fr)))
                             (validatedOf rt env config pr (fst fr))))) ?done"
    unfolding perFileOf_def
    by (intro map_cong refl) (simp add: reviewOf_counts(4) [OF completed_reviewOf])
  have call: "files \<noteq> [] \<longrightarrow>
      Call_generateSummary (perFileOf ?done) (prompt config) \<in> set (fst (runReview rt env config))"
  proof
    assume ne: "files \<noteq> []"
    from runReview_after_loop(1) [OF pr files ne, of rt] obtain posted where
      "fst (runReview rt env config) =
        [Call_getPRDetails, Call_getChangedFiles (excludePatterns config)] @
        map (reviewCallOf config pr) (filter (\<lambda>f. \<not> skipped f) (limited config files)) @
        [Call_generateSummary (perFileOf ?done) (prompt config)] @ posted"
      by blast
    then show "Call_generateSummary (perFileOf ?done) (prompt config)
        \<in> set (fst (runReview rt env config))"
      by simp
  qed
  have ex: "\<exists>rt' env' config' s'.
            snd (runReview rt' env' config') = Inr s' \<and>
            totalComments s' < criticalIssues s' + warnings s' + suggestions s'"
  proof -
    have "snd (runReview (sampleRuntime [(sampleAnswer, sampleDecoded)])
        (sampleServices [sampleFile ''a.ts''] (\<lambda>p. Inr (Some sampleAnswer)))
        (sampleConfig 50)) =
      Inr \<lparr>totalFiles = 1, filesReviewed = 1, totalComments = 1, criticalIssues = 1,
           warnings = 1, suggestions = 0, summary = ''Fine.''\<rparr>"
      by code_simp
    then show ?thesis
      by (intro exI [of _ "sampleRuntime [(sampleAnswer, sampleDecoded)]"]
            exI [of _ "sampleServices [sampleFile ''a.ts''] (\<lambda>p. Inr (Some sampleAnswer))"]
            exI [of _ "sampleConfig 50"]
            exI [of _ "\<lparr>totalFiles = 1, filesReviewed = 1, totalComments = 1, criticalIssues = 1,
           warnings = 1, suggestions = 0, summary = ''Fine.''\<rparr>"]) simp
  qed
  from sums c w g m call ex show ?thesis unfolding per by simp
qed

theorem tallies_over_validated_issues_witness:
  "snd (runReview (sampleRuntime [(sampleAnswer, sampleDecoded)])
        (sampleServices [sampleFile ''a.ts''] (\<lambda>p. Inr (Some sampleAnswer)))
        (sampleConfig 50)) =
     Inr \<lparr>totalFiles = 1, filesReviewed = 1, totalComments = 1, criticalIssues = 1,
          warnings = 1, suggestions = 0, summary = ''Fine.''\<rparr> \<and>
   length (validatedOf (sampleRuntime [(sampleAnswer, sampleDecoded)])
        (sampleServices [sampleFile ''a.ts''] (\<lambda>p. Inr (Some sampleAnswer)))
        (sampleConfig 50) \<lparr>title = ''Change'', body = None\<rparr> (sampleFile ''a.ts'')) = 2 \<and>
   sum_list (map (\<lambda>fr. length (filter (severityIn [''critical''])
        (validatedOf (sampleRuntime [(sampleAnswer, sampleDecoded)])
           (sampleServices [sampleFile ''a.ts''] (\<lambda>p. Inr (Some sampleAnswer)))
           (sampleConfig 50) \<lparr>title = ''Change'', body = None\<rparr> (fst fr))))
     (completed (sampleRuntime [(sampleAnswer, sampleDecoded)])
        (sampleServices [sampleFile ''a.ts''] (\<lambda>p. Inr (Some sampleAnswer)))
        (sampleConfig 50) \<lparr>title = ''Change'', body = None\<rparr>
        (limited (sampleConfig 50) [sampleFile ''a.ts'']))) = 1 \<and>
   sum_list (map (\<lambda>fr. length (filter (mappable (patchOrEmpty (fst fr)))
        (validatedOf (sampleRuntime [(sampleAnswer, sampleDecoded)])
           (sampleServices [sampleFile ''a.ts''] (\<lambda>p. Inr (Some sampleAnswer)))
           (sampleConfig 50) \<lparr>title = ''Change'', body = None\<rparr> (fst fr))))
     (completed (sampleRuntime [(sampleAnswer, sampleDecoded)])
        (sampleServices [sampleFile ''a.ts''] (\<lambda>p. Inr (Some sampleAnswer)))
        (sampleConfig 50) \<lparr>title = ''Change'', body = None\<rparr>
        (limited (sampleConfig 50) [sampleFile ''a.ts'']))) = 1"
proof -
  let ?files = "[sampleFile ''a.ts'']"
  let ?env = "sampleServices ?files (\<lambda>p. Inr (Some sampleAnswer))"
  let ?rt = "sampleRuntime [(sampleAnswer, sampleDecoded)]"
  let ?pr = "\<lparr>title = ''Change'', body = None\<rparr>"
  let ?s = "\<lparr>totalFiles = 1, filesReviewed = 1, totalComments = 1, criticalIssues = 1,
          warnings = 1, suggestions = 0, summary = ''Fine.''\<rparr>"
  have pr: "getPRDetails ?env = Inr ?pr" by (simp add: sampleServices_def)
  have files: "getChangedFiles ?env (excludePatterns (sampleConfig 50)) = Inr ?files"
    by (simp add: sampleServices_def)
  have res: "snd (runReview ?rt ?env (sampleConfig 50)) = Inr ?s"
    by code_simp
  have two: "length (validatedOf ?rt ?env (sampleConfig 50) ?pr (sampleFile ''a.ts'')) = 2"
    by code_simp
  note T = tallies_over_validated_issues [OF pr files res]
  from T have "sum_list (map (\<lambda>fr. length (filter (severityIn [''critical''])
        (validatedOf ?rt ?env (sampleConfig 50) ?pr (fst fr))))
     (completed ?rt ?env (sampleConfig 50) ?pr (limited (sampleConfig 50) ?files))) = criticalIssues ?s"
    by simp
  moreover from T have "sum_list (map (\<lambda>fr. length (filter (mappable (patchOrEmpty (fst fr)))
        (validatedOf ?rt ?env (sampleConfig 50) ?pr (fst fr))))
     (completed ?rt ?env (sampleConfig 50) ?pr (limited (sampleConfig 50) ?files))) = totalComments ?s"
    by simp
  ultimately show ?thesis using res two by simp
qed

end
